theory Spec2Isabelle
  imports Main
begin

section \<open>Data model\<close>

text \<open>
  The segment service of \<^verbatim>\<open>src/unnamed/part_000\<close> (class \<^verbatim>\<open>SegmentService\<close>).
  A constraint carries an optional list of match values; the service only reads
  \<^verbatim>\<open>constraint.values?.length\<close>.
\<close>

record constraint =
  contextName :: string
  operator :: string
  constraint_values :: "string list option"

text \<open>
  \<^verbatim>\<open>Omit<ISegment, 'id'>\<close>: what the schema hands to the service. An optional field is
  an option (\<open>None\<close> is JavaScript's \<^verbatim>\<open>undefined\<close>). The read-only fields
  \<^verbatim>\<open>createdAt\<close> and \<^verbatim>\<open>createdBy\<close> of a stored segment are never read by the service and
  are left out.
\<close>

record upsert_segment =
  name :: string
  description :: "string option"
  project :: "string option"
  constraints :: "constraint list"

record segment = upsert_segment +
  seg_id :: nat

record strategy =
  strategy_id :: string
  projectId :: string

record user =
  username :: "string option"
  email :: "string option"

datatype event_type = SEGMENT_CREATED | SEGMENT_UPDATED | SEGMENT_DELETED

record event =
  ev_type :: event_type
  createdBy :: "string option"
  data :: segment
  preData :: "segment option"

record config =
  segmentValuesLimit :: nat
  strategySegmentsLimit :: nat

text \<open>
  The errors the service raises are \<^verbatim>\<open>BadDataError\<close> and \<^verbatim>\<open>NameExistsError\<close>, each with
  its message. \<open>ValidationError\<close> is what the schema rejects with and \<open>NotFoundError\<close>
  what the store's \<^verbatim>\<open>get\<close> rejects with.
\<close>

datatype error =
    BadDataError string
  | NameExistsError string
  | NotFoundError
  | ValidationError

subsection \<open>The stores\<close>

text \<open>
  Every call the service makes on one of its three collaborators (segment store,
  feature strategies store, event store) is recorded in order, so that the order of
  reads and writes is part of the state.
\<close>

datatype call =
    Store_get nat
  | Store_getByStrategy string
  | Store_existsByName string
  | Store_create upsert_segment
  | Store_update nat upsert_segment
  | Store_delete nat
  | Store_addToStrategy nat string
  | Store_removeFromStrategy nat string
  | Strategies_getStrategiesBySegment nat
  | EventStore_store event

fun mutating :: "call \<Rightarrow> bool" where
  "mutating (Store_create _) = True"
| "mutating (Store_update _ _) = True"
| "mutating (Store_delete _) = True"
| "mutating (Store_addToStrategy _ _) = True"
| "mutating (Store_removeFromStrategy _ _) = True"
| "mutating (EventStore_store _) = True"
| "mutating _ = False"

text \<open>
  The tables behind the stores: the segments, the segment-strategy links as pairs
  (segment id, strategy id), the strategies with their projects, the audit events, and
  the next id the segment store assigns.
\<close>

record world =
  segments :: "segment list"
  links :: "(nat \<times> string) list"
  strategies :: "strategy list"
  events :: "event list"
  nextId :: nat
  calls :: "call list"

definition log_call :: "call \<Rightarrow> world \<Rightarrow> world" where
  "log_call c w = w\<lparr>calls := calls w @ [c]\<rparr>"

text \<open>
  Modelled from the spec: the segment store's \<^verbatim>\<open>get(id) -> Segment | NotFound\<close>. The
  service sees its three stores through their interfaces (\<^verbatim>\<open>ISegmentStore\<close>,
  \<^verbatim>\<open>IFeatureStrategiesStore\<close>, \<^verbatim>\<open>IEventStore\<close>); their implementations are not among the
  sources, so each store operation below follows the spec's contract for it.
\<close>

definition store_get :: "nat \<Rightarrow> world \<Rightarrow> (error + segment) \<times> world" where
  "store_get i w =
     ((case find (\<lambda>s. seg_id s = i) (segments w) of
         None \<Rightarrow> Inl NotFoundError
       | Some s \<Rightarrow> Inr s),
      log_call (Store_get i) w)"

text \<open>
  Modelled from the spec: the segment store's \<^verbatim>\<open>getByStrategy(strategyId)\<close>, the stored
  segments that a link pairs with the strategy, in the store's order.
\<close>

definition store_getByStrategy :: "string \<Rightarrow> world \<Rightarrow> segment list \<times> world" where
  "store_getByStrategy strategyId w =
     (filter (\<lambda>s. (seg_id s, strategyId) \<in> set (links w)) (segments w),
      log_call (Store_getByStrategy strategyId) w)"

text \<open>
  Modelled from the spec: the segment store's \<^verbatim>\<open>existsByName(name) -> bool\<close>, a
  case-sensitive exact match among the stored segments.
\<close>

definition store_existsByName :: "string \<Rightarrow> world \<Rightarrow> bool \<times> world" where
  "store_existsByName nm w =
     (nm \<in> set (map name (segments w)), log_call (Store_existsByName nm) w)"

text \<open>
  Modelled from the spec: a stored segment is the input's fields under the id the store
  gave it; the id is assigned by the store on creation and immutable thereafter.
\<close>

definition stored :: "nat \<Rightarrow> upsert_segment \<Rightarrow> segment" where
  "stored i input =
     \<lparr>name = name input, description = description input,
      project = project input, constraints = constraints input, seg_id = i\<rparr>"

text \<open>
  Modelled from the spec: the segment store's \<^verbatim>\<open>create(input, actor) -> Segment\<close>, which
  persists the input under an id the store assigns.
\<close>

definition store_create :: "upsert_segment \<Rightarrow> user \<Rightarrow> world \<Rightarrow> segment \<times> world" where
  "store_create input actor w =
     (let s = stored (nextId w) input
      in (s, log_call (Store_create input)
               (w\<lparr>segments := segments w @ [s], nextId := Suc (nextId w)\<rparr>)))"

text \<open>
  Modelled from the spec: the segment store's \<^verbatim>\<open>update(id, input) -> Segment\<close>, a full
  replacement of the segment's fields; the id is immutable.
\<close>

definition store_update :: "nat \<Rightarrow> upsert_segment \<Rightarrow> world \<Rightarrow> segment \<times> world" where
  "store_update i input w =
     (let s = stored i input
      in (s, log_call (Store_update i input)
               (w\<lparr>segments := map (\<lambda>t. if seg_id t = i then s else t) (segments w)\<rparr>)))"

text \<open>
  Modelled from the spec: the segment store's \<^verbatim>\<open>delete(id)\<close>, which also removes the
  segment's strategy links (the store cascades link removal).
\<close>

definition store_delete :: "nat \<Rightarrow> world \<Rightarrow> world" where
  "store_delete i w =
     log_call (Store_delete i)
       (w\<lparr>segments := filter (\<lambda>s. seg_id s \<noteq> i) (segments w),
          links := filter (\<lambda>l. fst l \<noteq> i) (links w)\<rparr>)"

text \<open>
  Modelled from the spec: the segment store's \<^verbatim>\<open>addToStrategy(segmentId, strategyId)\<close>.
  The link table holds no duplicate pairs, and adding a pair that is present leaves the
  table as it is.
\<close>

definition store_addToStrategy :: "nat \<Rightarrow> string \<Rightarrow> world \<Rightarrow> world" where
  "store_addToStrategy i strategyId w =
     log_call (Store_addToStrategy i strategyId)
       (w\<lparr>links := (if (i, strategyId) \<in> set (links w) then links w
                     else links w @ [(i, strategyId)])\<rparr>)"

text \<open>
  Modelled from the spec: the segment store's \<^verbatim>\<open>removeFromStrategy(segmentId, strategyId)\<close>,
  which deletes the link if present; removing an absent link is not an error.
\<close>

definition store_removeFromStrategy :: "nat \<Rightarrow> string \<Rightarrow> world \<Rightarrow> world" where
  "store_removeFromStrategy i strategyId w =
     log_call (Store_removeFromStrategy i strategyId)
       (w\<lparr>links := filter (\<lambda>l. l \<noteq> (i, strategyId)) (links w)\<rparr>)"

text \<open>
  Modelled from the spec: the feature strategies store's
  \<^verbatim>\<open>getStrategiesBySegment(segmentId) -> sequence<Strategy{id, projectId}>\<close>, the
  strategies that a link pairs with the segment.
\<close>

definition getStrategiesBySegment :: "nat \<Rightarrow> world \<Rightarrow> strategy list \<times> world" where
  "getStrategiesBySegment i w =
     (filter (\<lambda>t. (i, strategy_id t) \<in> set (links w)) (strategies w),
      log_call (Strategies_getStrategiesBySegment i) w)"

text \<open>
  Modelled from the spec: the event store's \<^verbatim>\<open>store(event)\<close>, an append-only audit
  trail.
\<close>

definition eventStore_store :: "event \<Rightarrow> world \<Rightarrow> world" where
  "eventStore_store ev w = log_call (EventStore_store ev) (w\<lparr>events := events w @ [ev]\<rparr>)"

subsection \<open>JavaScript helpers\<close>

text \<open>A number in a template literal: the decimal digits of a natural number.\<close>

function show_nat :: "nat \<Rightarrow> string" where
  "show_nat n =
     (if n < 10 then [''0123456789'' ! n]
      else show_nat (n div 10) @ [''0123456789'' ! (n mod 10)])"
  by pat_completeness auto
termination
  by (relation "measure id") auto

text \<open>\<^verbatim>\<open>Array.prototype.join\<close> on strings.\<close>

fun join :: "string \<Rightarrow> string list \<Rightarrow> string" where
  "join sep [] = []"
| "join sep [x] = x"
| "join sep (x # y # ys) = x @ sep @ join sep (y # ys)"

text \<open>
  \<^verbatim>\<open>new Set(xs)\<close> as the list of its elements in insertion order: the first occurrence
  of each element stays. Its \<^verbatim>\<open>size\<close> is the length of that list.
\<close>

definition new_Set :: "'a list \<Rightarrow> 'a list" where
  "new_Set xs = rev (remdups (rev xs))"

text \<open>
  Truthiness of an optional string: \<^verbatim>\<open>undefined\<close> and the empty string are falsy.
\<close>

fun truthy :: "string option \<Rightarrow> bool" where
  "truthy None = False"
| "truthy (Some s) = (s \<noteq> [])"

text \<open>\<^verbatim>\<open>a || b\<close> on optional strings.\<close>

definition js_or :: "string option \<Rightarrow> string option \<Rightarrow> string option" where
  "js_or a b = (if truthy a then a else b)"

section \<open>The segment service\<close>

subsection \<open>Validation\<close>

definition strategySegmentsLimit_message :: "nat \<Rightarrow> string" where
  "strategySegmentsLimit_message n =
     ''Strategies may not have more than '' @ show_nat n @ '' segments''"

definition segmentValuesLimit_message :: "nat \<Rightarrow> string" where
  "segmentValuesLimit_message n =
     ''Segments may not have more than '' @ show_nat n @ '' values''"

definition invalidProject_message :: "string list \<Rightarrow> string" where
  "invalidProject_message projectsUsed =
     ''Invalid project. Segment is being used by strategies in other projects: ''
       @ join '', '' projectsUsed"

definition getByStrategy :: "string \<Rightarrow> world \<Rightarrow> segment list \<times> world" where
  "getByStrategy strategyId w = store_getByStrategy strategyId w"

definition validateName :: "string \<Rightarrow> world \<Rightarrow> (error + unit) \<times> world" where
  "validateName nm w =
     (if nm = [] then (Inl (BadDataError ''Segment name cannot be empty''), w)
      else (case store_existsByName nm w of
              (True, w') \<Rightarrow> (Inl (NameExistsError ''Segment name already exists''), w')
            | (False, w') \<Rightarrow> (Inr (), w')))"

definition validateStrategySegmentLimit ::
    "config \<Rightarrow> string \<Rightarrow> world \<Rightarrow> (error + unit) \<times> world" where
  "validateStrategySegmentLimit cfg strategyId w =
     (case getByStrategy strategyId w of
        (segs, w') \<Rightarrow>
          if length segs \<ge> strategySegmentsLimit cfg
          then (Inl (BadDataError (strategySegmentsLimit_message (strategySegmentsLimit cfg))), w')
          else (Inr (), w'))"

definition valuesCount :: "upsert_segment \<Rightarrow> nat" where
  "valuesCount segment =
     foldl (\<lambda>acc len. acc + len) 0
       (map (\<lambda>c. case constraint_values c of None \<Rightarrow> 0 | Some vs \<Rightarrow> length vs)
            (constraints segment))"

definition validateSegmentValuesLimit :: "config \<Rightarrow> upsert_segment \<Rightarrow> error + unit" where
  "validateSegmentValuesLimit cfg segment =
     (if valuesCount segment > segmentValuesLimit cfg
      then Inl (BadDataError (segmentValuesLimit_message (segmentValuesLimit cfg)))
      else Inr ())"

definition validateSegmentProject ::
    "nat \<Rightarrow> upsert_segment \<Rightarrow> world \<Rightarrow> (error + unit) \<times> world" where
  "validateSegmentProject i segment w =
     (case getStrategiesBySegment i w of
        (strats, w') \<Rightarrow>
          (let projectsUsed = new_Set (map projectId strats)
           in if truthy (project segment) \<and>
                 (length projectsUsed > 1 \<or>
                  (length projectsUsed = 1 \<and> the (project segment) \<notin> set projectsUsed))
              then (Inl (BadDataError (invalidProject_message projectsUsed)), w')
              else (Inr (), w')))"

subsection \<open>Create, update, delete\<close>

text \<open>
  The schema (\<^verbatim>\<open>segmentSchema.validateAsync\<close>) is a parameter: it maps the raw input to
  a typed segment or rejects it.
\<close>

definition create ::
    "config \<Rightarrow> ('raw \<Rightarrow> upsert_segment option) \<Rightarrow> 'raw \<Rightarrow> user \<Rightarrow> world
      \<Rightarrow> (error + segment) \<times> world" where
  "create cfg segmentSchema raw actor w =
     (case segmentSchema raw of
        None \<Rightarrow> (Inl ValidationError, w)
      | Some input \<Rightarrow>
          (case validateSegmentValuesLimit cfg input of
             Inl e \<Rightarrow> (Inl e, w)
           | Inr _ \<Rightarrow>
               (case validateName (name input) w of
                  (Inl e, w1) \<Rightarrow> (Inl e, w1)
                | (Inr _, w1) \<Rightarrow>
                    (case store_create input actor w1 of
                       (segment, w2) \<Rightarrow>
                         (Inr segment,
                          eventStore_store
                            \<lparr>ev_type = SEGMENT_CREATED,
                             createdBy = js_or (email actor) (username actor),
                             data = segment, preData = None\<rparr> w2)))))"

definition update ::
    "config \<Rightarrow> ('raw \<Rightarrow> upsert_segment option) \<Rightarrow> nat \<Rightarrow> 'raw \<Rightarrow> user \<Rightarrow> world
      \<Rightarrow> (error + unit) \<times> world" where
  "update cfg segmentSchema i raw actor w =
     (case segmentSchema raw of
        None \<Rightarrow> (Inl ValidationError, w)
      | Some input \<Rightarrow>
          (case validateSegmentValuesLimit cfg input of
             Inl e \<Rightarrow> (Inl e, w)
           | Inr _ \<Rightarrow>
               (case store_get i w of
                  (Inl e, w1) \<Rightarrow> (Inl e, w1)
                | (Inr pre, w1) \<Rightarrow>
                    (case (if name pre \<noteq> name input then validateName (name input) w1
                           else (Inr (), w1)) of
                       (Inl e, w2) \<Rightarrow> (Inl e, w2)
                     | (Inr _, w2) \<Rightarrow>
                         (case validateSegmentProject i input w2 of
                            (Inl e, w3) \<Rightarrow> (Inl e, w3)
                          | (Inr _, w3) \<Rightarrow>
                              (case store_update i input w3 of
                                 (segment, w4) \<Rightarrow>
                                   (Inr (),
                                    eventStore_store
                                      \<lparr>ev_type = SEGMENT_UPDATED,
                                       createdBy = js_or (email actor) (username actor),
                                       data = segment, preData = Some pre\<rparr> w4)))))))"

definition delete :: "nat \<Rightarrow> user \<Rightarrow> world \<Rightarrow> (error + unit) \<times> world" where
  "delete i actor w =
     (case store_get i w of
        (Inl e, w1) \<Rightarrow> (Inl e, w1)
      | (Inr segment, w1) \<Rightarrow>
          (Inr (),
           eventStore_store
             \<lparr>ev_type = SEGMENT_DELETED,
              createdBy = js_or (email actor) (username actor),
              data = segment, preData = None\<rparr>
             (store_delete i w1)))"

subsection \<open>Strategy association\<close>

definition addToStrategy ::
    "config \<Rightarrow> nat \<Rightarrow> string \<Rightarrow> world \<Rightarrow> (error + unit) \<times> world" where
  "addToStrategy cfg i strategyId w =
     (case validateStrategySegmentLimit cfg strategyId w of
        (Inl e, w') \<Rightarrow> (Inl e, w')
      | (Inr _, w') \<Rightarrow> (Inr (), store_addToStrategy i strategyId w'))"

definition removeFromStrategy :: "nat \<Rightarrow> string \<Rightarrow> world \<Rightarrow> (error + unit) \<times> world" where
  "removeFromStrategy i strategyId w = (Inr (), store_removeFromStrategy i strategyId w)"

text \<open>
  \<^verbatim>\<open>Promise.all(xs.map(f))\<close> starts every call of the batch and joins them. The calls
  of a batch advance one store call at a time, in an order the service does not
  control. A task is what is left of one call: a \<^verbatim>\<open>removeFromStrategy\<close> that has yet to
  reach the store, an \<^verbatim>\<open>addToStrategy\<close> before its limit check, an \<^verbatim>\<open>addToStrategy\<close>
  that passed the check and has yet to write, or a settled call.
\<close>

datatype task = Removing nat | Validating nat | Inserting nat | Settled

fun task_step :: "config \<Rightarrow> string \<Rightarrow> task \<Rightarrow> world \<Rightarrow> (error + task) \<times> world" where
  "task_step cfg strategyId (Removing i) w =
     (case removeFromStrategy i strategyId w of (_, w') \<Rightarrow> (Inr Settled, w'))"
| "task_step cfg strategyId (Validating i) w =
     (case validateStrategySegmentLimit cfg strategyId w of
        (Inl e, w') \<Rightarrow> (Inl e, w')
      | (Inr _, w') \<Rightarrow> (Inr (Inserting i), w'))"
| "task_step cfg strategyId (Inserting i) w =
     (Inr Settled, store_addToStrategy i strategyId w)"
| "task_step cfg strategyId Settled w = (Inr Settled, w)"

datatype promise_state = Pending | Fulfilled | Rejected error

text \<open>
  The schedule lists, step by step, the index of the task that advances. The batch is
  fulfilled once every task is settled, rejected with the first error a task raises
  (the state is the one at that moment: nothing is rolled back), and pending when the
  schedule ends before the tasks do.
\<close>

fun promise_all ::
    "config \<Rightarrow> string \<Rightarrow> nat list \<Rightarrow> task list \<Rightarrow> world \<Rightarrow> promise_state \<times> world" where
  "promise_all cfg strategyId [] ts w =
     (if list_all (\<lambda>t. t = Settled) ts then (Fulfilled, w) else (Pending, w))"
| "promise_all cfg strategyId (k # ks) ts w =
     (if k < length ts then
        (case task_step cfg strategyId (ts ! k) w of
           (Inl e, w') \<Rightarrow> (Rejected e, w')
         | (Inr t', w') \<Rightarrow> promise_all cfg strategyId ks (ts[k := t']) w')
      else promise_all cfg strategyId ks ts w)"

definition updateStrategySegments ::
    "config \<Rightarrow> string \<Rightarrow> nat list \<Rightarrow> nat list \<Rightarrow> nat list \<Rightarrow> world
      \<Rightarrow> promise_state \<times> world" where
  "updateStrategySegments cfg strategyId segmentIds removals additions w =
     (if length segmentIds > strategySegmentsLimit cfg
      then (Rejected (BadDataError
              (strategySegmentsLimit_message (strategySegmentsLimit cfg))), w)
      else
        (case getByStrategy strategyId w of
           (segs, w1) \<Rightarrow>
             (let currentSegmentIds = map seg_id segs;
                  segmentIdsToRemove = filter (\<lambda>i. i \<notin> set segmentIds) currentSegmentIds
              in (case promise_all cfg strategyId removals
                         (map Removing segmentIdsToRemove) w1 of
                    (Fulfilled, w2) \<Rightarrow>
                      (let segmentIdsToAdd =
                             filter (\<lambda>i. i \<notin> set currentSegmentIds) segmentIds
                       in promise_all cfg strategyId additions
                            (map Validating segmentIdsToAdd) w2)
                  | (r, w2) \<Rightarrow> (r, w2)))))"

subsection \<open>Observations\<close>

text \<open>
  The tables of the stores without the record of calls, and the segments the store
  currently links to a strategy (what \<^verbatim>\<open>getByStrategy\<close> returns).
\<close>

definition tables ::
    "world \<Rightarrow> segment list \<times> (nat \<times> string) list \<times> strategy list \<times> event list \<times> nat" where
  "tables w = (segments w, links w, strategies w, events w, nextId w)"

definition linked :: "string \<Rightarrow> world \<Rightarrow> segment list" where
  "linked strategyId w = fst (getByStrategy strategyId w)"

text \<open>The calls a state has recorded beyond those of an earlier state.\<close>

definition new_calls :: "world \<Rightarrow> world \<Rightarrow> call list" where
  "new_calls w w' = drop (length (calls w)) (calls w')"

text \<open>
  The distinct project ids among the strategies a segment is linked to, as
  \<^verbatim>\<open>validateSegmentProject\<close> computes them.
\<close>

definition projectsUsed :: "nat \<Rightarrow> world \<Rightarrow> string list" where
  "projectsUsed i w = new_Set (map projectId (fst (getStrategiesBySegment i w)))"

text \<open>The condition under which \<^verbatim>\<open>validateSegmentProject\<close> throws.\<close>

definition invalidProject :: "nat \<Rightarrow> upsert_segment \<Rightarrow> world \<Rightarrow> bool" where
  "invalidProject i segment w =
     (truthy (project segment) \<and>
      (1 < length (projectsUsed i w) \<or>
       (length (projectsUsed i w) = 1 \<and> the (project segment) \<notin> set (projectsUsed i w))))"

text \<open>The event \<^verbatim>\<open>update\<close> stores.\<close>

definition updated_event :: "user \<Rightarrow> nat \<Rightarrow> upsert_segment \<Rightarrow> segment \<Rightarrow> event" where
  "updated_event actor i input pre =
     \<lparr>ev_type = SEGMENT_UPDATED, createdBy = js_or (email actor) (username actor),
      data = stored i input, preData = Some pre\<rparr>"

text \<open>
  What a batch still has to do: the segments its pending removals and additions name,
  the store calls a task has left, and whether a schedule gives each of the first
  \<open>n\<close> tasks of a batch at least \<open>m\<close> steps.
\<close>

definition removals_of :: "task list \<Rightarrow> nat set" where
  "removals_of ts = {i. Removing i \<in> set ts}"

definition additions_of :: "task list \<Rightarrow> nat set" where
  "additions_of ts = {i. Validating i \<in> set ts \<or> Inserting i \<in> set ts}"

fun adding :: "task \<Rightarrow> bool" where
  "adding (Validating _) = True"
| "adding (Inserting _) = True"
| "adding _ = False"

fun removing :: "task \<Rightarrow> bool" where
  "removing (Removing _) = True"
| "removing _ = False"

fun steps_left :: "task \<Rightarrow> nat" where
  "steps_left (Removing _) = 1"
| "steps_left (Validating _) = 2"
| "steps_left (Inserting _) = 1"
| "steps_left Settled = 0"

definition fair :: "nat list \<Rightarrow> nat \<Rightarrow> nat \<Rightarrow> bool" where
  "fair sched n m = list_all (\<lambda>k. m \<le> count_list sched k) [0..<n]"

text \<open>
  The two differences \<^verbatim>\<open>updateStrategySegments\<close> computes, as functions of the state it
  reads: \<^verbatim>\<open>segmentIdsToRemove\<close> and \<^verbatim>\<open>segmentIdsToAdd\<close>.
\<close>

definition segmentIdsToRemove :: "string \<Rightarrow> nat list \<Rightarrow> world \<Rightarrow> nat list" where
  "segmentIdsToRemove strategyId segmentIds w =
     filter (\<lambda>i. i \<notin> set segmentIds) (map seg_id (linked strategyId w))"

definition segmentIdsToAdd :: "string \<Rightarrow> nat list \<Rightarrow> world \<Rightarrow> nat list" where
  "segmentIdsToAdd strategyId segmentIds w =
     filter (\<lambda>i. i \<notin> set (map seg_id (linked strategyId w))) segmentIds"

text \<open>
  Where a batch stands after a prefix of its schedule: the tasks and the state it has
  reached, or the error that rejected it and the state at that moment. It is
  \<^verbatim>\<open>promise_all\<close> stopped before the schedule ends, so that the state each store call
  of a task reads can be named.
\<close>

fun advance ::
    "config \<Rightarrow> string \<Rightarrow> nat list \<Rightarrow> task list \<Rightarrow> world
      \<Rightarrow> (error \<times> world) + (task list \<times> world)" where
  "advance cfg strategyId [] ts w = Inr (ts, w)"
| "advance cfg strategyId (k # ks) ts w =
     (if k < length ts then
        (case task_step cfg strategyId (ts ! k) w of
           (Inl e, w') \<Rightarrow> Inl (e, w')
         | (Inr t', w') \<Rightarrow> advance cfg strategyId ks (ts[k := t']) w')
      else advance cfg strategyId ks ts w)"

subsection \<open>Example states\<close>

text \<open>
  Three stored segments, two of them linked to strategy \<open>strat-1\<close> of project \<open>P\<close>
  and the first also to strategy \<open>strat-2\<close> of project \<open>Q\<close>.
\<close>

definition ex_segment :: "nat \<Rightarrow> string \<Rightarrow> string option \<Rightarrow> segment" where
  "ex_segment i nm p =
     \<lparr>name = nm, description = None, project = p, constraints = [], seg_id = i\<rparr>"

definition ex_world :: world where
  "ex_world =
     \<lparr>segments = [ex_segment 1 ''eu-users'' None, ex_segment 2 ''beta'' None,
                  ex_segment 3 ''staff'' None],
      links = [(1, ''strat-1''), (2, ''strat-1''), (1, ''strat-2'')],
      strategies = [\<lparr>strategy_id = ''strat-1'', projectId = ''P''\<rparr>,
                    \<lparr>strategy_id = ''strat-2'', projectId = ''Q''\<rparr>],
      events = [], nextId = 4, calls = []\<rparr>"

definition ex_config :: "nat \<Rightarrow> config" where
  "ex_config n = \<lparr>segmentValuesLimit = 3, strategySegmentsLimit = n\<rparr>"

text \<open>
  A schema that accepts every well-shaped candidate and rejects the malformed input
  \<open>None\<close>; a candidate with one constraint; an actor.
\<close>

definition ex_schema :: "upsert_segment option \<Rightarrow> upsert_segment option" where
  "ex_schema raw = raw"

definition ex_input :: "string \<Rightarrow> string option \<Rightarrow> string list \<Rightarrow> upsert_segment" where
  "ex_input nm p vs =
     \<lparr>name = nm, description = None, project = p,
      constraints = [\<lparr>contextName = ''country'', operator = ''IN'',
                       constraint_values = Some vs\<rparr>]\<rparr>"

definition ex_actor :: "string option \<Rightarrow> string option \<Rightarrow> user" where
  "ex_actor u e = \<lparr>username = u, email = e\<rparr>"

section \<open>Properties\<close>

subsection \<open>The stores and the steps of a batch\<close>

lemma fields_log_call [simp]:
  "segments (log_call c w) = segments w"
  "links (log_call c w) = links w"
  "strategies (log_call c w) = strategies w"
  "events (log_call c w) = events w"
  "nextId (log_call c w) = nextId w"
  "calls (log_call c w) = calls w @ [c]"
  by (simp_all add: log_call_def)

lemma tables_log_call [simp]: "tables (log_call c w) = tables w"
  by (simp add: tables_def)

lemma linked_eq: "linked sid w = filter (\<lambda>s. (seg_id s, sid) \<in> set (links w)) (segments w)"
  by (simp add: linked_def getByStrategy_def store_getByStrategy_def)

lemma getByStrategy_eq: "getByStrategy sid w = (linked sid w, log_call (Store_getByStrategy sid) w)"
  by (simp add: getByStrategy_def store_getByStrategy_def linked_def)

lemma linked_log_call [simp]: "linked sid (log_call c w) = linked sid w"
  by (simp add: linked_eq)

lemma validateStrategySegmentLimit_eq:
  "validateStrategySegmentLimit cfg sid w =
     ((if strategySegmentsLimit cfg \<le> length (linked sid w)
       then Inl (BadDataError (strategySegmentsLimit_message (strategySegmentsLimit cfg)))
       else Inr ()),
      log_call (Store_getByStrategy sid) w)"
  by (simp add: validateStrategySegmentLimit_def getByStrategy_eq)

lemma store_removeFromStrategy_fields [simp]:
  "segments (store_removeFromStrategy i sid w) = segments w"
  "links (store_removeFromStrategy i sid w) = filter (\<lambda>l. l \<noteq> (i, sid)) (links w)"
  "strategies (store_removeFromStrategy i sid w) = strategies w"
  "events (store_removeFromStrategy i sid w) = events w"
  "nextId (store_removeFromStrategy i sid w) = nextId w"
  "calls (store_removeFromStrategy i sid w) = calls w @ [Store_removeFromStrategy i sid]"
  by (simp_all add: store_removeFromStrategy_def)

lemma store_addToStrategy_fields [simp]:
  "segments (store_addToStrategy i sid w) = segments w"
  "set (links (store_addToStrategy i sid w)) = insert (i, sid) (set (links w))"
  "strategies (store_addToStrategy i sid w) = strategies w"
  "events (store_addToStrategy i sid w) = events w"
  "nextId (store_addToStrategy i sid w) = nextId w"
  "calls (store_addToStrategy i sid w) = calls w @ [Store_addToStrategy i sid]"
  by (auto simp add: store_addToStrategy_def)

text \<open>One step of a task, case by case.\<close>

lemma task_step_cases:
  "task_step cfg sid (Removing i) w = (Inr Settled, store_removeFromStrategy i sid w)"
  "task_step cfg sid (Validating i) w =
     (if strategySegmentsLimit cfg \<le> length (linked sid w)
      then (Inl (BadDataError (strategySegmentsLimit_message (strategySegmentsLimit cfg))),
            log_call (Store_getByStrategy sid) w)
      else (Inr (Inserting i), log_call (Store_getByStrategy sid) w))"
  "task_step cfg sid (Inserting i) w = (Inr Settled, store_addToStrategy i sid w)"
  "task_step cfg sid Settled w = (Inr Settled, w)"
  by (simp_all add: removeFromStrategy_def validateStrategySegmentLimit_eq)

declare task_step.simps [simp del]

lemma task_step_frame:
  "task_step cfg sid t w = (r, w') \<Longrightarrow>
     segments w' = segments w \<and> strategies w' = strategies w
     \<and> events w' = events w \<and> nextId w' = nextId w"
  by (cases t) (auto simp add: task_step_cases split: if_splits)

lemma promise_all_frame:
  "promise_all cfg sid sched ts w = (r, w') \<Longrightarrow>
     segments w' = segments w \<and> strategies w' = strategies w
     \<and> events w' = events w \<and> nextId w' = nextId w"
proof (induction sched arbitrary: ts w)
  case Nil
  then show ?case by (simp split: if_splits)
next
  case (Cons k ks)
  show ?case
  proof (cases "k < length ts")
    case False
    with Cons show ?thesis by simp
  next
    case True
    obtain x w1 where step: "task_step cfg sid (ts ! k) w = (x, w1)"
      by (cases "task_step cfg sid (ts ! k) w")
    note fr = task_step_frame [OF step]
    show ?thesis
    proof (cases x)
      case (Inl e)
      with Cons.prems True step fr show ?thesis by simp
    next
      case (Inr t')
      with Cons.prems True step
      have "promise_all cfg sid ks (ts[k := t']) w1 = (r, w')" by simp
      from Cons.IH [OF this] fr show ?thesis by simp
    qed
  qed
qed

lemma promise_all_no_tasks: "promise_all cfg sid sched [] w = (Fulfilled, w)"
  by (induction sched) simp_all

subsection \<open>Batches\<close>

lemma set_list_update_back:
  "k < length xs \<Longrightarrow> set xs \<subseteq> insert (xs ! k) (set (xs[k := y]))"
proof
  fix x assume k: "k < length xs" and "x \<in> set xs"
  then obtain n where n: "n < length xs" "xs ! n = x" by (auto simp add: in_set_conv_nth)
  show "x \<in> insert (xs ! k) (set (xs[k := y]))"
  proof (cases "n = k")
    case True with n show ?thesis by simp
  next
    case False
    with n have "(xs[k := y]) ! n = x" by simp
    with n have "x \<in> set (xs[k := y])" by (metis length_list_update nth_mem)
    then show ?thesis by simp
  qed
qed

lemma removals_of_step:
  assumes "k < length ts" "ts ! k = Removing i"
  shows "insert i (removals_of (ts[k := Settled])) = removals_of ts"
proof -
  have a: "set (ts[k := Settled]) \<subseteq> insert Settled (set ts)"
    by (rule set_update_subset_insert)
  have b: "set ts \<subseteq> insert (Removing i) (set (ts[k := Settled]))"
    using set_list_update_back [OF assms(1), of Settled] assms(2) by simp
  have c: "Removing i \<in> set ts" using assms by (metis nth_mem)
  show ?thesis using a b c by (auto simp add: removals_of_def)
qed

lemma additions_of_validate:
  assumes "k < length ts" "ts ! k = Validating i"
  shows "additions_of (ts[k := Inserting i]) = additions_of ts"
proof -
  have a: "set (ts[k := Inserting i]) \<subseteq> insert (Inserting i) (set ts)"
    by (rule set_update_subset_insert)
  have b: "set ts \<subseteq> insert (Validating i) (set (ts[k := Inserting i]))"
    using set_list_update_back [OF assms(1), of "Inserting i"] assms(2) by simp
  have c: "Validating i \<in> set ts" using assms by (metis nth_mem)
  have d: "Inserting i \<in> set (ts[k := Inserting i])"
    using assms(1) by (simp add: set_update_memI)
  show ?thesis using a b c d by (auto simp add: additions_of_def)
qed

lemma additions_of_insert:
  assumes "k < length ts" "ts ! k = Inserting i"
  shows "insert i (additions_of (ts[k := Settled])) = additions_of ts"
proof -
  have a: "set (ts[k := Settled]) \<subseteq> insert Settled (set ts)"
    by (rule set_update_subset_insert)
  have b: "set ts \<subseteq> insert (Inserting i) (set (ts[k := Settled]))"
    using set_list_update_back [OF assms(1), of Settled] assms(2) by simp
  have c: "Inserting i \<in> set ts" using assms by (metis nth_mem)
  show ?thesis using a b c by (auto simp add: additions_of_def)
qed

text \<open>A batch of removals.\<close>

lemma list_all_update:
  "list_all P ts \<Longrightarrow> P t \<Longrightarrow> list_all P (ts[k := t])"
  unfolding list_all_iff
  using set_update_subset_insert [of ts k t] by auto

lemma promise_all_removals:
  assumes "list_all (\<lambda>t. \<not> adding t) ts" "promise_all cfg sid sched ts w = (r, w')"
  shows "(\<forall>e. r \<noteq> Rejected e)
       \<and> (\<exists>cs. calls w' = calls w @ cs
                \<and> set cs \<subseteq> (\<lambda>i. Store_removeFromStrategy i sid) ` removals_of ts
                \<and> (r = Fulfilled \<longrightarrow>
                      set cs = (\<lambda>i. Store_removeFromStrategy i sid) ` removals_of ts
                      \<and> set (links w') = set (links w) - (\<lambda>i. (i, sid)) ` removals_of ts))"
  using assms
proof (induction sched arbitrary: ts w)
  case Nil
  from Nil.prems(2) have w: "w' = w" and r: "r = Fulfilled \<longleftrightarrow> list_all (\<lambda>t. t = Settled) ts"
    and nr: "\<forall>e. r \<noteq> Rejected e"
    by (simp_all split: if_splits)
  have "r = Fulfilled \<longrightarrow> removals_of ts = {}"
    using r by (auto simp add: removals_of_def list_all_iff)
  then have "calls w' = calls w @ [] \<and> set [] \<subseteq> (\<lambda>i. Store_removeFromStrategy i sid) ` removals_of ts
     \<and> (r = Fulfilled \<longrightarrow>
                      set [] = (\<lambda>i. Store_removeFromStrategy i sid) ` removals_of ts
                      \<and> set (links w') = set (links w) - (\<lambda>i. (i, sid)) ` removals_of ts)"
    using w by simp
  with nr show ?case by blast
next
  case (Cons k ks)
  show ?case
  proof (cases "k < length ts")
    case False
    with Cons.prems(2) have "promise_all cfg sid ks ts w = (r, w')" by simp
    from Cons.IH [OF Cons.prems(1) this] show ?thesis .
  next
    case True
    from Cons.prems(1) True have na: "\<not> adding (ts ! k)"
      by (simp add: list_all_length)
    show ?thesis
    proof (cases "ts ! k")
      case (Removing i)
      let ?w1 = "store_removeFromStrategy i sid w"
      let ?ts1 = "ts[k := Settled]"
      from Cons.prems(2) True Removing
      have run: "promise_all cfg sid ks ?ts1 ?w1 = (r, w')"
        by (simp add: task_step_cases)
      have rb: "list_all (\<lambda>t. \<not> adding t) ?ts1"
        by (rule list_all_update [OF Cons.prems(1)]) simp
      note ih = Cons.IH [OF rb run]
      from ih have nr: "\<forall>e. r \<noteq> Rejected e" by (rule conjunct1)
      from ih have "\<exists>cs. calls w' = calls ?w1 @ cs
                \<and> set cs \<subseteq> (\<lambda>i. Store_removeFromStrategy i sid) ` removals_of ?ts1
                \<and> (r = Fulfilled \<longrightarrow>
                      set cs = (\<lambda>i. Store_removeFromStrategy i sid) ` removals_of ?ts1
                      \<and> set (links w') = set (links ?w1) - (\<lambda>i. (i, sid)) ` removals_of ?ts1)"
        by (rule conjunct2)
      then obtain cs where cs0: "calls w' = calls ?w1 @ cs
                \<and> set cs \<subseteq> (\<lambda>i. Store_removeFromStrategy i sid) ` removals_of ?ts1
                \<and> (r = Fulfilled \<longrightarrow>
                      set cs = (\<lambda>i. Store_removeFromStrategy i sid) ` removals_of ?ts1
                      \<and> set (links w') = set (links ?w1) - (\<lambda>i. (i, sid)) ` removals_of ?ts1)" ..
      from cs0 have cs: "calls w' = calls ?w1 @ cs"
            "set cs \<subseteq> (\<lambda>i. Store_removeFromStrategy i sid) ` removals_of ?ts1"
            "r = Fulfilled \<longrightarrow>
               set cs = (\<lambda>i. Store_removeFromStrategy i sid) ` removals_of ?ts1
               \<and> set (links w') = set (links ?w1) - (\<lambda>i. (i, sid)) ` removals_of ?ts1"
        by blast+
      note st = removals_of_step [OF True Removing, symmetric]
      have l1: "set (links ?w1) = set (links w) - {(i, sid)}"
        by auto
      have c1: "calls w' = calls w @ (Store_removeFromStrategy i sid # cs)"
        using cs(1) by simp
      have c2: "set (Store_removeFromStrategy i sid # cs)
                  \<subseteq> (\<lambda>i. Store_removeFromStrategy i sid) ` removals_of ts"
        using cs(2) by (subst st) (simp add: subset_insertI2)
      have c3: "r = Fulfilled \<longrightarrow>
          set (Store_removeFromStrategy i sid # cs)
            = (\<lambda>i. Store_removeFromStrategy i sid) ` removals_of ts
          \<and> set (links w') = set (links w) - (\<lambda>i. (i, sid)) ` removals_of ts"
      proof
        assume "r = Fulfilled"
        with cs(3) have
          e1: "set cs = (\<lambda>i. Store_removeFromStrategy i sid) ` removals_of ?ts1" and
          e2: "set (links w') = set (links ?w1) - (\<lambda>i. (i, sid)) ` removals_of ?ts1"
          by simp_all
        have "set (Store_removeFromStrategy i sid # cs)
                = (\<lambda>i. Store_removeFromStrategy i sid) ` removals_of ts"
          by (subst st) (simp add: e1)
        moreover have "set (links w') = set (links w) - (\<lambda>i. (i, sid)) ` removals_of ts"
          unfolding e2 l1 by (subst st) blast
        ultimately show "set (Store_removeFromStrategy i sid # cs)
            = (\<lambda>i. Store_removeFromStrategy i sid) ` removals_of ts
          \<and> set (links w') = set (links w) - (\<lambda>i. (i, sid)) ` removals_of ts" ..
      qed
      from nr c1 c2 c3 show ?thesis by blast
    next
      case (Validating i)
      with na show ?thesis by simp
    next
      case (Inserting i)
      with na show ?thesis by simp
    next
      case Settled
      then have "ts[k := Settled] = ts" by (metis list_update_id)
      with Cons.prems(2) True Settled
      have run: "promise_all cfg sid ks ts w = (r, w')"
        by (simp add: task_step_cases)
      from Cons.IH [OF Cons.prems(1) run] show ?thesis .
    qed
  qed
qed

text \<open>A batch of additions.\<close>

lemma promise_all_additions:
  assumes "list_all (\<lambda>t. \<not> removing t) ts" "promise_all cfg sid sched ts w = (r, w')"
  shows "\<exists>cs. calls w' = calls w @ cs
           \<and> set cs \<subseteq> insert (Store_getByStrategy sid)
                          ((\<lambda>i. Store_addToStrategy i sid) ` additions_of ts)
           \<and> (r = Fulfilled \<longrightarrow>
                 set (links w') = set (links w) \<union> (\<lambda>i. (i, sid)) ` additions_of ts)"
  using assms
proof (induction sched arbitrary: ts w)
  case Nil
  from Nil.prems(2) have w: "w' = w"
    and r: "r = Fulfilled \<longleftrightarrow> list_all (\<lambda>t. t = Settled) ts"
    by (simp_all split: if_splits)
  have "r = Fulfilled \<longrightarrow> additions_of ts = {}"
    using r by (auto simp add: additions_of_def list_all_iff)
  then have "calls w' = calls w @ []
     \<and> set [] \<subseteq> insert (Store_getByStrategy sid)
                          ((\<lambda>i. Store_addToStrategy i sid) ` additions_of ts)
     \<and> (r = Fulfilled \<longrightarrow>
           set (links w') = set (links w) \<union> (\<lambda>i. (i, sid)) ` additions_of ts)"
    using w by simp
  then show ?case ..
next
  case (Cons k ks)
  show ?case
  proof (cases "k < length ts")
    case False
    with Cons.prems(2) have "promise_all cfg sid ks ts w = (r, w')" by simp
    from Cons.IH [OF Cons.prems(1) this] show ?thesis .
  next
    case True
    from Cons.prems(1) True have nr: "\<not> removing (ts ! k)"
      by (simp add: list_all_length)
    show ?thesis
    proof (cases "ts ! k")
      case (Removing i)
      with nr show ?thesis by simp
    next
      case (Validating i)
      let ?w1 = "log_call (Store_getByStrategy sid) w"
      let ?ts1 = "ts[k := Inserting i]"
      show ?thesis
      proof (cases "strategySegmentsLimit cfg \<le> length (linked sid w)")
        case full: True
        with Cons.prems(2) True Validating
        have "r \<noteq> Fulfilled" and "w' = ?w1"
          by (auto simp add: task_step_cases)
        then have "calls w' = calls w @ [Store_getByStrategy sid]
           \<and> set [Store_getByStrategy sid] \<subseteq> insert (Store_getByStrategy sid)
                          ((\<lambda>i. Store_addToStrategy i sid) ` additions_of ts)
           \<and> (r = Fulfilled \<longrightarrow>
                 set (links w') = set (links w) \<union> (\<lambda>i. (i, sid)) ` additions_of ts)"
          by simp
        then show ?thesis ..
      next
        case False
        with Cons.prems(2) True Validating
        have run: "promise_all cfg sid ks ?ts1 ?w1 = (r, w')"
          by (simp add: task_step_cases)
        have ab: "list_all (\<lambda>t. \<not> removing t) ?ts1"
          by (rule list_all_update [OF Cons.prems(1)]) simp
        from Cons.IH [OF ab run] obtain cs where cs0:
          "calls w' = calls ?w1 @ cs
           \<and> set cs \<subseteq> insert (Store_getByStrategy sid)
                          ((\<lambda>i. Store_addToStrategy i sid) ` additions_of ?ts1)
           \<and> (r = Fulfilled \<longrightarrow>
                 set (links w') = set (links ?w1) \<union> (\<lambda>i. (i, sid)) ` additions_of ?ts1)" ..
        note st = additions_of_validate [OF True Validating]
        from cs0 have "calls w' = calls w @ (Store_getByStrategy sid # cs)
           \<and> set (Store_getByStrategy sid # cs) \<subseteq> insert (Store_getByStrategy sid)
                          ((\<lambda>i. Store_addToStrategy i sid) ` additions_of ts)
           \<and> (r = Fulfilled \<longrightarrow>
                 set (links w') = set (links w) \<union> (\<lambda>i. (i, sid)) ` additions_of ts)"
          unfolding st by simp
        then show ?thesis ..
      qed
    next
      case (Inserting i)
      let ?w1 = "store_addToStrategy i sid w"
      let ?ts1 = "ts[k := Settled]"
      from Cons.prems(2) True Inserting
      have run: "promise_all cfg sid ks ?ts1 ?w1 = (r, w')"
        by (simp add: task_step_cases)
      have ab: "list_all (\<lambda>t. \<not> removing t) ?ts1"
        by (rule list_all_update [OF Cons.prems(1)]) simp
      from Cons.IH [OF ab run] obtain cs where cs0:
        "calls w' = calls ?w1 @ cs
         \<and> set cs \<subseteq> insert (Store_getByStrategy sid)
                        ((\<lambda>i. Store_addToStrategy i sid) ` additions_of ?ts1)
         \<and> (r = Fulfilled \<longrightarrow>
               set (links w') = set (links ?w1) \<union> (\<lambda>i. (i, sid)) ` additions_of ?ts1)" ..
      note st = additions_of_insert [OF True Inserting, symmetric]
      from cs0 have c1: "calls w' = calls w @ (Store_addToStrategy i sid # cs)"
        by simp
      from cs0 have "set cs \<subseteq> insert (Store_getByStrategy sid)
                        ((\<lambda>i. Store_addToStrategy i sid) ` additions_of ?ts1)"
        by blast
      then have c2: "set (Store_addToStrategy i sid # cs) \<subseteq> insert (Store_getByStrategy sid)
                          ((\<lambda>i. Store_addToStrategy i sid) ` additions_of ts)"
        by (subst st) auto
      have c3: "r = Fulfilled \<longrightarrow>
                 set (links w') = set (links w) \<union> (\<lambda>i. (i, sid)) ` additions_of ts"
      proof
        assume "r = Fulfilled"
        with cs0 have "set (links w') = set (links ?w1) \<union> (\<lambda>i. (i, sid)) ` additions_of ?ts1"
          by blast
        then show "set (links w') = set (links w) \<union> (\<lambda>i. (i, sid)) ` additions_of ts"
          by (subst st) simp
      qed
      from c1 c2 c3 show ?thesis by blast
    next
      case Settled
      then have "ts[k := Settled] = ts" by (metis list_update_id)
      with Cons.prems(2) True Settled
      have run: "promise_all cfg sid ks ts w = (r, w')"
        by (simp add: task_step_cases)
      from Cons.IH [OF Cons.prems(1) run] show ?thesis .
    qed
  qed
qed

text \<open>Counting.\<close>

lemma length_filter_update:
  "k < length xs \<Longrightarrow>
     length (filter P (xs[k := y])) + (if P (xs ! k) then 1 else 0)
       = length (filter P xs) + (if P y then 1 else 0)"
proof (induction xs arbitrary: k)
  case Nil
  then show ?case by simp
next
  case (Cons x xs)
  show ?case
  proof (cases k)
    case 0
    then show ?thesis by simp
  next
    case (Suc n)
    with Cons.prems have "n < length xs" by simp
    from Cons.IH [OF this] Suc show ?thesis by simp
  qed
qed

lemma length_filter_key_le_1:
  "distinct (map f xs) \<Longrightarrow> length (filter (\<lambda>s. f s = i) xs) \<le> 1"
proof (induction xs)
  case Nil
  then show ?case by simp
next
  case (Cons x xs)
  show ?case
  proof (cases "f x = i")
    case True
    with Cons.prems have "i \<notin> f ` set xs" by simp
    then have "\<forall>s\<in>set xs. f s \<noteq> i" by blast
    then have "filter (\<lambda>s. f s = i) xs = []" by (simp add: filter_empty_conv)
    with True show ?thesis by simp
  next
    case False
    with Cons show ?thesis by simp
  qed
qed

lemma length_filter_disj:
  "length (filter (\<lambda>s. P s \<or> Q s) xs) \<le> length (filter P xs) + length (filter Q xs)"
  by (induction xs) auto

lemma linked_after_remove:
  "length (linked sid (store_removeFromStrategy i sid w)) \<le> length (linked sid w)"
proof -
  have "linked sid (store_removeFromStrategy i sid w)
          = filter (\<lambda>s. seg_id s \<noteq> i) (linked sid w)"
    by (auto simp add: linked_eq intro: filter_cong)
  then show ?thesis by simp
qed

lemma linked_after_add:
  assumes "distinct (map seg_id (segments w))"
  shows "length (linked sid (store_addToStrategy i sid w)) \<le> Suc (length (linked sid w))"
proof -
  have "linked sid (store_addToStrategy i sid w)
          = filter (\<lambda>s. (seg_id s, sid) \<in> set (links w) \<or> seg_id s = i) (segments w)"
    by (auto simp add: linked_eq intro: filter_cong)
  then have "length (linked sid (store_addToStrategy i sid w))
          \<le> length (linked sid w) + length (filter (\<lambda>s. seg_id s = i) (segments w))"
    using length_filter_disj [of "\<lambda>s. (seg_id s, sid) \<in> set (links w)" "\<lambda>s. seg_id s = i" "segments w"]
    by (simp add: linked_eq)
  with length_filter_key_le_1 [OF assms, of i] show ?thesis by simp
qed

text \<open>
  A batch whose schedule gives every task the steps it has left is fulfilled, provided
  its pending additions, if it has any, fit under the limit.
\<close>

lemma promise_all_fulfilled:
  assumes "distinct (map seg_id (segments w))"
    and "filter adding ts = [] \<or>
         length (linked sid w) + length (filter adding ts) \<le> strategySegmentsLimit cfg"
    and "\<forall>k<length ts. steps_left (ts ! k) \<le> count_list sched k"
  shows "fst (promise_all cfg sid sched ts w) = Fulfilled"
  using assms
proof (induction sched arbitrary: ts w)
  case Nil
  then have "\<forall>k<length ts. steps_left (ts ! k) = 0" by simp
  then have "\<forall>k<length ts. ts ! k = Settled"
    by (metis steps_left.elims zero_neq_one zero_neq_numeral)
  then have "list_all (\<lambda>t. t = Settled) ts" by (simp add: list_all_length)
  then show ?case by simp
next
  case (Cons k ks)
  show ?case
  proof (cases "k < length ts")
    case False
    with Cons.prems(3) have "\<forall>j<length ts. steps_left (ts ! j) \<le> count_list ks j"
      by auto
    from Cons.IH [OF Cons.prems(1,2) this] False show ?thesis by simp
  next
    case True
    have others: "\<And>t'. steps_left t' \<le> count_list ks k
                   \<Longrightarrow> \<forall>j<length (ts[k := t']). steps_left (ts[k := t'] ! j) \<le> count_list ks j"
    proof (intro allI impI)
      fix t' j assume t': "steps_left t' \<le> count_list ks k" and j: "j < length (ts[k := t'])"
      show "steps_left (ts[k := t'] ! j) \<le> count_list ks j"
      proof (cases "j = k")
        case True with t' j show ?thesis by simp
      next
        case False
        with j Cons.prems(3) show ?thesis by auto
      qed
    qed
    from Cons.prems(3) True have here: "steps_left (ts ! k) \<le> Suc (count_list ks k)"
      by auto
    note cnt = length_filter_update [OF True, of adding]
    show ?thesis
    proof (cases "ts ! k")
      case (Removing i)
      let ?w1 = "store_removeFromStrategy i sid w"
      let ?ts1 = "ts[k := Settled]"
      have d: "distinct (map seg_id (segments ?w1))" using Cons.prems(1) by simp
      have b: "filter adding ?ts1 = [] \<or>
          length (linked sid ?w1) + length (filter adding ?ts1) \<le> strategySegmentsLimit cfg"
      proof (cases "filter adding ts = []")
        case True
        with cnt [of Settled] Removing show ?thesis by simp
      next
        case False
        with Cons.prems(2) linked_after_remove [of sid i w] cnt [of Settled] Removing
        show ?thesis by simp
      qed
      have f: "\<forall>j<length ?ts1. steps_left (?ts1 ! j) \<le> count_list ks j"
        by (rule others) simp
      from Cons.IH [OF d b f] True Removing show ?thesis
        by (simp add: task_step_cases)
    next
      case (Validating i)
      let ?w1 = "log_call (Store_getByStrategy sid) w"
      let ?ts1 = "ts[k := Inserting i]"
      from True have "ts ! k \<in> set ts" by (rule nth_mem)
      with Validating have "ts ! k \<in> set (filter adding ts)" by simp
      then have pos: "0 < length (filter adding ts)"
        by (metis length_pos_if_in_set)
      with Cons.prems(2)
      have bound: "length (linked sid w) + length (filter adding ts) \<le> strategySegmentsLimit cfg"
        by auto
      with pos have ok: "\<not> strategySegmentsLimit cfg \<le> length (linked sid w)"
        by linarith
      have d: "distinct (map seg_id (segments ?w1))" using Cons.prems(1) by simp
      have b: "filter adding ?ts1 = [] \<or>
          length (linked sid ?w1) + length (filter adding ?ts1) \<le> strategySegmentsLimit cfg"
        using bound cnt [of "Inserting i"] Validating by simp
      have f: "\<forall>j<length ?ts1. steps_left (?ts1 ! j) \<le> count_list ks j"
        using here Validating by (intro others) simp
      from Cons.IH [OF d b f] True Validating ok show ?thesis
        by (simp add: task_step_cases)
    next
      case (Inserting i)
      let ?w1 = "store_addToStrategy i sid w"
      let ?ts1 = "ts[k := Settled]"
      have d: "distinct (map seg_id (segments ?w1))" using Cons.prems(1) by simp
      from True have "ts ! k \<in> set ts" by (rule nth_mem)
      with Inserting have "ts ! k \<in> set (filter adding ts)" by simp
      then have "filter adding ts \<noteq> []"
        by (metis empty_iff empty_set)
      with Cons.prems(2)
      have bound: "length (linked sid w) + length (filter adding ts) \<le> strategySegmentsLimit cfg"
        by simp
      have b: "filter adding ?ts1 = [] \<or>
          length (linked sid ?w1) + length (filter adding ?ts1) \<le> strategySegmentsLimit cfg"
        using bound linked_after_add [OF Cons.prems(1), of sid i] cnt [of Settled] Inserting
        by simp
      have f: "\<forall>j<length ?ts1. steps_left (?ts1 ! j) \<le> count_list ks j"
        by (rule others) simp
      from Cons.IH [OF d b f] True Inserting show ?thesis
        by (simp add: task_step_cases)
    next
      case Settled
      then have same: "ts[k := Settled] = ts" by (metis list_update_id)
      have f: "\<forall>j<length (ts[k := Settled]). steps_left (ts[k := Settled] ! j) \<le> count_list ks j"
        by (rule others) simp
      from Cons.IH [OF Cons.prems(1,2)] f same True Settled show ?thesis
        by (simp add: task_step_cases)
    qed
  qed
qed

text \<open>
  A batch of one call is that call: the steps of a task are the store calls of
  \<^verbatim>\<open>addToStrategy\<close> and \<^verbatim>\<open>removeFromStrategy\<close>, in their order.
\<close>

lemma promise_all_one_addition:
  "promise_all cfg sid [0, 0] [Validating i] w =
     (case addToStrategy cfg i sid w of
        (Inl e, w') \<Rightarrow> (Rejected e, w')
      | (Inr _, w') \<Rightarrow> (Fulfilled, w'))"
  by (simp add: task_step_cases addToStrategy_def validateStrategySegmentLimit_eq)

lemma promise_all_one_removal:
  "promise_all cfg sid [0] [Removing i] w = (Fulfilled, snd (removeFromStrategy i sid w))"
  by (simp add: task_step_cases removeFromStrategy_def)

subsection \<open>Reconciliation\<close>

lemma removals_of_map [simp]: "removals_of (map Removing xs) = set xs"
  by (auto simp add: removals_of_def)

lemma additions_of_map [simp]: "additions_of (map Validating xs) = set xs"
  by (auto simp add: additions_of_def)

lemma removal_batch_map [simp]: "list_all (\<lambda>t. \<not> adding t) (map Removing xs)"
  by (simp add: list_all_iff)

lemma addition_batch_map [simp]: "list_all (\<lambda>t. \<not> removing t) (map Validating xs)"
  by (simp add: list_all_iff)

lemma updateStrategySegments_too_many:
  "strategySegmentsLimit cfg < length ids \<Longrightarrow>
     updateStrategySegments cfg sid ids removals additions w =
       (Rejected (BadDataError (strategySegmentsLimit_message (strategySegmentsLimit cfg))), w)"
  by (simp add: updateStrategySegments_def)

lemma updateStrategySegments_batches:
  "length ids \<le> strategySegmentsLimit cfg \<Longrightarrow>
     updateStrategySegments cfg sid ids removals additions w =
       (case promise_all cfg sid removals (map Removing (segmentIdsToRemove sid ids w))
               (log_call (Store_getByStrategy sid) w) of
          (Fulfilled, w2) \<Rightarrow>
            promise_all cfg sid additions (map Validating (segmentIdsToAdd sid ids w)) w2
        | (r, w2) \<Rightarrow> (r, w2))"
  by (simp add: updateStrategySegments_def getByStrategy_eq segmentIdsToRemove_def
        segmentIdsToAdd_def Let_def split: prod.splits promise_state.splits)

text \<open>The two phases of a fulfilled reconciliation.\<close>

lemma updateStrategySegments_fulfilledD:
  assumes "updateStrategySegments cfg sid ids removals additions w = (Fulfilled, w')"
  obtains w2 where
    "length ids \<le> strategySegmentsLimit cfg"
    "promise_all cfg sid removals (map Removing (segmentIdsToRemove sid ids w))
        (log_call (Store_getByStrategy sid) w) = (Fulfilled, w2)"
    "promise_all cfg sid additions (map Validating (segmentIdsToAdd sid ids w)) w2
        = (Fulfilled, w')"
proof -
  have le: "length ids \<le> strategySegmentsLimit cfg"
  proof (rule ccontr)
    assume "\<not> length ids \<le> strategySegmentsLimit cfg"
    then have "strategySegmentsLimit cfg < length ids" by simp
    from updateStrategySegments_too_many [OF this] assms show False by simp
  qed
  obtain r w2 where rm:
    "promise_all cfg sid removals (map Removing (segmentIdsToRemove sid ids w))
        (log_call (Store_getByStrategy sid) w) = (r, w2)"
    by (cases "promise_all cfg sid removals (map Removing (segmentIdsToRemove sid ids w))
        (log_call (Store_getByStrategy sid) w)")
  from assms rm have "r = Fulfilled"
    unfolding updateStrategySegments_batches [OF le] by (cases r) simp_all
  with assms rm le that show thesis
    unfolding updateStrategySegments_batches [OF le] by simp
qed

lemma updateStrategySegments_linked_ids:
  assumes "updateStrategySegments cfg sid ids removals additions w = (Fulfilled, w')"
  shows "set (map seg_id (linked sid w')) = set ids \<inter> seg_id ` set (segments w)"
proof -
  from assms obtain w2 where
    rm: "promise_all cfg sid removals (map Removing (segmentIdsToRemove sid ids w))
        (log_call (Store_getByStrategy sid) w) = (Fulfilled, w2)" and
    ad: "promise_all cfg sid additions (map Validating (segmentIdsToAdd sid ids w)) w2
        = (Fulfilled, w')"
    by (rule updateStrategySegments_fulfilledD)
  from promise_all_removals [OF removal_batch_map rm]
  have l2: "set (links w2) = set (links w) - (\<lambda>i. (i, sid)) ` set (segmentIdsToRemove sid ids w)"
    by auto
  from promise_all_additions [OF addition_batch_map ad]
  have l3: "set (links w') = set (links w2) \<union> (\<lambda>i. (i, sid)) ` set (segmentIdsToAdd sid ids w)"
    by auto
  have s2: "segments w2 = segments w" using promise_all_frame [OF rm] by simp
  have s3: "segments w' = segments w2" using promise_all_frame [OF ad] by simp
  have rmset: "set (segmentIdsToRemove sid ids w)
                 = {i. i \<in> seg_id ` set (linked sid w) \<and> i \<notin> set ids}"
    by (auto simp add: segmentIdsToRemove_def)
  have adset: "set (segmentIdsToAdd sid ids w)
                 = {i. i \<in> set ids \<and> i \<notin> seg_id ` set (linked sid w)}"
    by (auto simp add: segmentIdsToAdd_def)
  have cur: "seg_id ` set (linked sid w)
               = {i. i \<in> seg_id ` set (segments w) \<and> (i, sid) \<in> set (links w)}"
    by (auto simp add: linked_eq)
  have "set (map seg_id (linked sid w'))
          = {i. i \<in> seg_id ` set (segments w) \<and> (i, sid) \<in> set (links w')}"
    by (auto simp add: linked_eq s2 s3)
  also have "\<dots> = set ids \<inter> seg_id ` set (segments w)"
    unfolding l3 l2 rmset adset cur by blast
  finally show ?thesis .
qed

lemma fairD: "fair sched n m \<Longrightarrow> k < n \<Longrightarrow> m \<le> count_list sched k"
  by (simp add: fair_def list_all_iff)

lemma length_filter_mem_le:
  assumes "distinct xs"
  shows "length (filter (\<lambda>i. i \<in> set ys) xs) \<le> length (filter (\<lambda>i. i \<in> set xs) ys)"
proof -
  have "distinct (filter (\<lambda>i. i \<in> set ys) xs)" using assms by simp
  then have "length (filter (\<lambda>i. i \<in> set ys) xs) = card (set (filter (\<lambda>i. i \<in> set ys) xs))"
    by (rule distinct_card [symmetric])
  also have "set (filter (\<lambda>i. i \<in> set ys) xs) = set (filter (\<lambda>i. i \<in> set xs) ys)"
    by auto
  also have "card (set (filter (\<lambda>i. i \<in> set xs) ys)) \<le> length (filter (\<lambda>i. i \<in> set xs) ys)"
    by (rule card_length)
  finally show ?thesis .
qed

lemma distinct_linked:
  "distinct (map seg_id (segments w)) \<Longrightarrow> distinct (map seg_id (linked sid w))"
  by (simp add: linked_eq distinct_map_filter)

text \<open>After the removals, what is left of the links and what is to add fit in \<open>ids\<close>.\<close>

lemma kept_plus_added_le:
  assumes "distinct (map seg_id (segments w))"
    and "segments w2 = segments w"
    and "set (links w2) = set (links w) - (\<lambda>i. (i, sid)) ` set (segmentIdsToRemove sid ids w)"
  shows "length (linked sid w2) + length (segmentIdsToAdd sid ids w) \<le> length ids"
proof -
  let ?cur = "map seg_id (linked sid w)"
  have "linked sid w2 = filter (\<lambda>s. seg_id s \<in> set ids) (linked sid w)"
    unfolding linked_eq assms(2) assms(3) segmentIdsToRemove_def
    by (auto simp add: linked_eq intro: filter_cong)
  then have "length (linked sid w2) = length (filter (\<lambda>i. i \<in> set ids) ?cur)"
    by (simp add: filter_map comp_def)
  also have "\<dots> \<le> length (filter (\<lambda>i. i \<in> set ?cur) ids)"
    by (rule length_filter_mem_le [OF distinct_linked [OF assms(1)]])
  finally have "length (linked sid w2) + length (segmentIdsToAdd sid ids w)
      \<le> length (filter (\<lambda>i. i \<in> set ?cur) ids) + length (filter (\<lambda>i. i \<notin> set ?cur) ids)"
    by (simp add: segmentIdsToAdd_def)
  also have "\<dots> = length ids" by (rule sum_length_filter_compl)
  finally show ?thesis .
qed

lemma updateStrategySegments_fulfilled:
  assumes le: "length ids \<le> strategySegmentsLimit cfg"
    and d: "distinct (map seg_id (segments w))"
    and fr: "fair removals (length (segmentIdsToRemove sid ids w)) 1"
    and fa: "fair additions (length (segmentIdsToAdd sid ids w)) 2"
  shows "fst (updateStrategySegments cfg sid ids removals additions w) = Fulfilled"
proof -
  let ?w1 = "log_call (Store_getByStrategy sid) w"
  let ?rm = "map Removing (segmentIdsToRemove sid ids w)"
  let ?ad = "map Validating (segmentIdsToAdd sid ids w)"
  have f1: "\<forall>k<length ?rm. steps_left (?rm ! k) \<le> count_list removals k"
    using fairD [OF fr] by auto
  have "fst (promise_all cfg sid removals ?rm ?w1) = Fulfilled"
    by (rule promise_all_fulfilled [OF _ _ f1]) (simp_all add: d)
  then obtain w2 where rm: "promise_all cfg sid removals ?rm ?w1 = (Fulfilled, w2)"
    by (cases "promise_all cfg sid removals ?rm ?w1") simp
  from promise_all_removals [OF removal_batch_map rm]
  have l2: "set (links w2) = set (links w) - (\<lambda>i. (i, sid)) ` set (segmentIdsToRemove sid ids w)"
    by auto
  have s2: "segments w2 = segments w" using promise_all_frame [OF rm] by simp
  have f2: "\<forall>k<length ?ad. steps_left (?ad ! k) \<le> count_list additions k"
    using fairD [OF fa] by auto
  have b2: "filter adding ?ad = [] \<or>
      length (linked sid w2) + length (filter adding ?ad) \<le> strategySegmentsLimit cfg"
    using kept_plus_added_le [OF d s2 l2] le by (simp add: filter_map comp_def)
  have "fst (promise_all cfg sid additions ?ad w2) = Fulfilled"
    by (rule promise_all_fulfilled [OF _ b2 f2]) (simp add: s2 d)
  with rm show ?thesis
    by (simp add: updateStrategySegments_batches [OF le])
qed

lemma set_segmentIdsToRemove:
  "set (segmentIdsToRemove sid ids w) = seg_id ` set (fst (getByStrategy sid w)) - set ids"
  by (auto simp add: segmentIdsToRemove_def linked_def)

lemma set_segmentIdsToAdd:
  "set (segmentIdsToAdd sid ids w) = set ids - seg_id ` set (fst (getByStrategy sid w))"
  by (auto simp add: segmentIdsToAdd_def linked_def)

lemma updateStrategySegments_calls:
  assumes le: "length ids \<le> strategySegmentsLimit cfg"
    and run: "updateStrategySegments cfg sid ids removals additions w = (r, w')"
  shows "\<exists>rs as. calls w' = calls w @ Store_getByStrategy sid # rs @ as
        \<and> set rs \<subseteq> (\<lambda>i. Store_removeFromStrategy i sid) ` set (segmentIdsToRemove sid ids w)
        \<and> set as \<subseteq> insert (Store_getByStrategy sid)
                        ((\<lambda>i. Store_addToStrategy i sid) ` set (segmentIdsToAdd sid ids w))
        \<and> (as \<noteq> [] \<longrightarrow>
              set rs = (\<lambda>i. Store_removeFromStrategy i sid) ` set (segmentIdsToRemove sid ids w))"
proof -
  let ?w1 = "log_call (Store_getByStrategy sid) w"
  let ?rm = "map Removing (segmentIdsToRemove sid ids w)"
  let ?ad = "map Validating (segmentIdsToAdd sid ids w)"
  obtain r1 w2 where rm: "promise_all cfg sid removals ?rm ?w1 = (r1, w2)"
    by (cases "promise_all cfg sid removals ?rm ?w1")
  from promise_all_removals [OF removal_batch_map rm]
  have "\<exists>cs. calls w2 = calls ?w1 @ cs
                \<and> set cs \<subseteq> (\<lambda>i. Store_removeFromStrategy i sid) ` removals_of ?rm
                \<and> (r1 = Fulfilled \<longrightarrow>
                      set cs = (\<lambda>i. Store_removeFromStrategy i sid) ` removals_of ?rm
                      \<and> set (links w2) = set (links ?w1) - (\<lambda>i. (i, sid)) ` removals_of ?rm)"
    by (rule conjunct2)
  then obtain rs where rs0: "calls w2 = calls ?w1 @ rs
                \<and> set rs \<subseteq> (\<lambda>i. Store_removeFromStrategy i sid) ` removals_of ?rm
                \<and> (r1 = Fulfilled \<longrightarrow>
                      set rs = (\<lambda>i. Store_removeFromStrategy i sid) ` removals_of ?rm
                      \<and> set (links w2) = set (links ?w1) - (\<lambda>i. (i, sid)) ` removals_of ?rm)" ..
  then have rs1: "calls w2 = calls w @ Store_getByStrategy sid # rs"
    and rs2: "set rs \<subseteq> (\<lambda>i. Store_removeFromStrategy i sid) ` set (segmentIdsToRemove sid ids w)"
    and rs3: "r1 = Fulfilled \<Longrightarrow>
                set rs = (\<lambda>i. Store_removeFromStrategy i sid) ` set (segmentIdsToRemove sid ids w)"
    by simp_all
  show ?thesis
  proof (cases "r1 = Fulfilled")
    case True
    with run rm have ad: "promise_all cfg sid additions ?ad w2 = (r, w')"
      by (simp add: updateStrategySegments_batches [OF le])
    from promise_all_additions [OF addition_batch_map ad]
    obtain as where as0: "calls w' = calls w2 @ as
           \<and> set as \<subseteq> insert (Store_getByStrategy sid)
                          ((\<lambda>i. Store_addToStrategy i sid) ` additions_of ?ad)
           \<and> (r = Fulfilled \<longrightarrow>
                 set (links w') = set (links w2) \<union> (\<lambda>i. (i, sid)) ` additions_of ?ad)" ..
    then have "calls w' = calls w @ Store_getByStrategy sid # rs @ as
        \<and> set rs \<subseteq> (\<lambda>i. Store_removeFromStrategy i sid) ` set (segmentIdsToRemove sid ids w)
        \<and> set as \<subseteq> insert (Store_getByStrategy sid)
                        ((\<lambda>i. Store_addToStrategy i sid) ` set (segmentIdsToAdd sid ids w))
        \<and> (as \<noteq> [] \<longrightarrow>
              set rs = (\<lambda>i. Store_removeFromStrategy i sid) ` set (segmentIdsToRemove sid ids w))"
      using rs1 rs2 rs3 [OF True] by simp
    then show ?thesis by blast
  next
    case False
    with run rm have "w' = w2"
      by (cases r1) (simp_all add: updateStrategySegments_batches [OF le])
    then have "calls w' = calls w @ Store_getByStrategy sid # rs @ []
        \<and> set rs \<subseteq> (\<lambda>i. Store_removeFromStrategy i sid) ` set (segmentIdsToRemove sid ids w)
        \<and> set [] \<subseteq> insert (Store_getByStrategy sid)
                        ((\<lambda>i. Store_addToStrategy i sid) ` set (segmentIdsToAdd sid ids w))
        \<and> ([] \<noteq> [] \<longrightarrow>
              set rs = (\<lambda>i. Store_removeFromStrategy i sid) ` set (segmentIdsToRemove sid ids w))"
      using rs1 rs2 by simp
    then show ?thesis by blast
  qed
qed

subsection \<open>The state a limit check reads\<close>

text \<open>A batch run over a schedule is the batch advanced over a prefix, then run over the rest.\<close>

lemma promise_all_advance:
  "promise_all cfg sid (pre @ post) ts w =
     (case advance cfg sid pre ts w of
        Inl (e, w') \<Rightarrow> (Rejected e, w')
      | Inr (ts', w') \<Rightarrow> promise_all cfg sid post ts' w')"
  by (induction pre arbitrary: ts w) (auto split: prod.splits sum.splits)

lemma advance_append:
  "advance cfg sid (pre @ post) ts w =
     (case advance cfg sid pre ts w of
        Inl x \<Rightarrow> Inl x
      | Inr (ts', w') \<Rightarrow> advance cfg sid post ts' w')"
  by (induction pre arbitrary: ts w) (auto split: prod.splits sum.splits)

lemma advance_additions:
  assumes "list_all (\<lambda>t. \<not> removing t) ts" "advance cfg sid pre ts w = Inr (ts', w')"
  shows "segments w' = segments w
       \<and> set (links w) \<subseteq> set (links w')
       \<and> set (links w') \<subseteq> set (links w) \<union> (\<lambda>i. (i, sid)) ` additions_of ts
       \<and> (distinct (map seg_id (segments w)) \<longrightarrow>
            length (linked sid w') + length (filter adding ts')
              \<le> length (linked sid w) + length (filter adding ts))"
  using assms
proof (induction pre arbitrary: ts w)
  case Nil
  then show ?case by simp
next
  case (Cons k ks)
  show ?case
  proof (cases "k < length ts")
    case False
    with Cons.prems(2) have "advance cfg sid ks ts w = Inr (ts', w')" by simp
    from Cons.IH [OF Cons.prems(1) this] show ?thesis .
  next
    case True
    from Cons.prems(1) True have nr: "\<not> removing (ts ! k)"
      by (simp add: list_all_length)
    note cnt = length_filter_update [OF True, of adding]
    show ?thesis
    proof (cases "ts ! k")
      case (Removing i)
      with nr show ?thesis by simp
    next
      case (Validating i)
      let ?w1 = "log_call (Store_getByStrategy sid) w"
      let ?ts1 = "ts[k := Inserting i]"
      from Cons.prems(2) True Validating
      have run: "advance cfg sid ks ?ts1 ?w1 = Inr (ts', w')"
        by (simp add: task_step_cases split: if_splits)
      have ab: "list_all (\<lambda>t. \<not> removing t) ?ts1"
        by (rule list_all_update [OF Cons.prems(1)]) simp
      note ih = Cons.IH [OF ab run]
      note st = additions_of_validate [OF True Validating]
      have c: "length (filter adding ?ts1) = length (filter adding ts)"
        using cnt [of "Inserting i"] Validating by simp
      from ih show ?thesis unfolding st c by simp
    next
      case (Inserting i)
      let ?w1 = "store_addToStrategy i sid w"
      let ?ts1 = "ts[k := Settled]"
      from Cons.prems(2) True Inserting
      have run: "advance cfg sid ks ?ts1 ?w1 = Inr (ts', w')"
        by (simp add: task_step_cases)
      have ab: "list_all (\<lambda>t. \<not> removing t) ?ts1"
        by (rule list_all_update [OF Cons.prems(1)]) simp
      note ih = Cons.IH [OF ab run]
      note st = additions_of_insert [OF True Inserting, symmetric]
      have c: "Suc (length (filter adding ?ts1)) = length (filter adding ts)"
        using cnt [of Settled] Inserting by simp
      from ih have s: "segments w' = segments w" by simp
      from ih have l1: "set (links w) \<subseteq> set (links w')" by simp
      from ih have "set (links w') \<subseteq> set (links ?w1) \<union> (\<lambda>i. (i, sid)) ` additions_of ?ts1"
        by blast
      then have l2: "set (links w') \<subseteq> set (links w) \<union> (\<lambda>i. (i, sid)) ` additions_of ts"
        by (subst st) auto
      have n: "distinct (map seg_id (segments w)) \<longrightarrow>
            length (linked sid w') + length (filter adding ts')
              \<le> length (linked sid w) + length (filter adding ts)"
      proof
        assume d: "distinct (map seg_id (segments w))"
        with ih have "length (linked sid w') + length (filter adding ts')
              \<le> length (linked sid ?w1) + length (filter adding ?ts1)" by simp
        with linked_after_add [OF d, of sid i] c
        show "length (linked sid w') + length (filter adding ts')
              \<le> length (linked sid w) + length (filter adding ts)" by linarith
      qed
      from s l1 l2 n show ?thesis by (intro conjI)
    next
      case Settled
      then have "ts[k := Settled] = ts" by (metis list_update_id)
      with Cons.prems(2) True Settled
      have run: "advance cfg sid ks ts w = Inr (ts', w')"
        by (simp add: task_step_cases)
      from Cons.IH [OF Cons.prems(1) run] show ?thesis .
    qed
  qed
qed

lemma limit_check_in_additions:
  assumes s2: "segments w2 = segments w"
    and l2: "set (links w2) = set (links w) - (\<lambda>i. (i, sid)) ` set (segmentIdsToRemove sid ids w)"
    and le: "length ids \<le> strategySegmentsLimit cfg"
    and run: "promise_all cfg sid additions (map Validating (segmentIdsToAdd sid ids w)) w2 = (r, w')"
    and split: "additions = pre @ k # post"
    and adv: "advance cfg sid pre (map Validating (segmentIdsToAdd sid ids w)) w2 = Inr (ts, w3)"
    and k: "k < length ts" "ts ! k = Validating i"
  shows "advance cfg sid (pre @ [k]) (map Validating (segmentIdsToAdd sid ids w)) w2 =
           (case validateStrategySegmentLimit cfg sid w3 of
              (Inl e, u) \<Rightarrow> Inl (e, u)
            | (Inr _, u) \<Rightarrow> Inr (ts[k := Inserting i], u))"
    and "set (links w) - (\<lambda>i. (i, sid)) ` set (segmentIdsToRemove sid ids w) \<subseteq> set (links w3)"
    and "set (links w3) \<subseteq> set (links w) - (\<lambda>i. (i, sid)) ` set (segmentIdsToRemove sid ids w)
                              \<union> (\<lambda>i. (i, sid)) ` set (segmentIdsToAdd sid ids w)"
    and "seg_id ` set (linked sid w3) \<subseteq> set ids"
    and "strategySegmentsLimit cfg \<le> length (linked sid w3) \<Longrightarrow>
           r = Rejected (BadDataError (strategySegmentsLimit_message (strategySegmentsLimit cfg)))"
    and "distinct (map seg_id (segments w)) \<Longrightarrow> length (linked sid w3) < strategySegmentsLimit cfg"
proof -
  let ?ad = "map Validating (segmentIdsToAdd sid ids w)"
  note inv = advance_additions [OF addition_batch_map adv]
  from inv have s3: "segments w3 = segments w" using s2 by simp
  from inv have a: "set (links w2) \<subseteq> set (links w3)" by simp
  from inv have b: "set (links w3) \<subseteq> set (links w2) \<union> (\<lambda>i. (i, sid)) ` additions_of ?ad"
    by blast
  show "advance cfg sid (pre @ [k]) ?ad w2 =
           (case validateStrategySegmentLimit cfg sid w3 of
              (Inl e, u) \<Rightarrow> Inl (e, u)
            | (Inr _, u) \<Rightarrow> Inr (ts[k := Inserting i], u))"
    using adv k by (simp add: advance_append task_step_cases validateStrategySegmentLimit_eq)
  from a show lo: "set (links w) - (\<lambda>i. (i, sid)) ` set (segmentIdsToRemove sid ids w)
                      \<subseteq> set (links w3)"
    unfolding l2 .
  from b show hi: "set (links w3) \<subseteq> set (links w) - (\<lambda>i. (i, sid)) ` set (segmentIdsToRemove sid ids w)
                              \<union> (\<lambda>i. (i, sid)) ` set (segmentIdsToAdd sid ids w)"
    unfolding l2 by simp
  show "seg_id ` set (linked sid w3) \<subseteq> set ids"
  proof
    fix j assume "j \<in> seg_id ` set (linked sid w3)"
    then obtain s where s: "s \<in> set (segments w)" "(seg_id s, sid) \<in> set (links w3)" "j = seg_id s"
      by (auto simp add: linked_eq s3)
    from hi s(2) consider
      "(seg_id s, sid) \<in> set (links w)" "seg_id s \<notin> set (segmentIdsToRemove sid ids w)"
      | "seg_id s \<in> set (segmentIdsToAdd sid ids w)"
      by auto
    then show "j \<in> set ids"
    proof cases
      case 1
      with s(1) have "s \<in> set (linked sid w)" by (simp add: linked_eq)
      with 1(2) s(3) show ?thesis by (auto simp add: segmentIdsToRemove_def)
    next
      case 2
      with s(3) show ?thesis by (simp add: segmentIdsToAdd_def)
    qed
  qed
  show "r = Rejected (BadDataError (strategySegmentsLimit_message (strategySegmentsLimit cfg)))"
    if "strategySegmentsLimit cfg \<le> length (linked sid w3)"
    using run that adv k unfolding split
    by (simp add: promise_all_advance task_step_cases)
  show "length (linked sid w3) < strategySegmentsLimit cfg"
    if d: "distinct (map seg_id (segments w))"
  proof -
    from d s2 have "distinct (map seg_id (segments w2))" by simp
    with inv have n: "length (linked sid w3) + length (filter adding ts)
              \<le> length (linked sid w2) + length (filter adding ?ad)" by blast
    from k have "ts ! k \<in> set ts" by (metis nth_mem)
    with k(2) have "ts ! k \<in> set (filter adding ts)" by simp
    then have pos: "0 < length (filter adding ts)"
      by (metis length_pos_if_in_set)
    have "length (filter adding ?ad) = length (segmentIdsToAdd sid ids w)"
      by (simp add: filter_map comp_def)
    with n pos kept_plus_added_le [OF d s2 l2] le show ?thesis by linarith
  qed
qed

lemma updateStrategySegments_links:
  assumes "updateStrategySegments cfg sid ids removals additions w = (Fulfilled, w')"
  shows "set (links w') = set (links w) - (\<lambda>i. (i, sid)) ` set (segmentIdsToRemove sid ids w)
                            \<union> (\<lambda>i. (i, sid)) ` set (segmentIdsToAdd sid ids w)"
    and "segments w' = segments w"
proof -
  from assms obtain w2 where
    rm: "promise_all cfg sid removals (map Removing (segmentIdsToRemove sid ids w))
        (log_call (Store_getByStrategy sid) w) = (Fulfilled, w2)" and
    ad: "promise_all cfg sid additions (map Validating (segmentIdsToAdd sid ids w)) w2
        = (Fulfilled, w')"
    by (rule updateStrategySegments_fulfilledD)
  from promise_all_removals [OF removal_batch_map rm]
  have l2: "set (links w2) = set (links w) - (\<lambda>i. (i, sid)) ` set (segmentIdsToRemove sid ids w)"
    by auto
  from promise_all_additions [OF addition_batch_map ad]
  have l3: "set (links w') = set (links w2) \<union> (\<lambda>i. (i, sid)) ` set (segmentIdsToAdd sid ids w)"
    by auto
  show "set (links w') = set (links w) - (\<lambda>i. (i, sid)) ` set (segmentIdsToRemove sid ids w)
                            \<union> (\<lambda>i. (i, sid)) ` set (segmentIdsToAdd sid ids w)"
    unfolding l3 l2 ..
  show "segments w' = segments w"
    using promise_all_frame [OF rm] promise_all_frame [OF ad] by simp
qed

lemma updateStrategySegments_phases:
  assumes le: "length ids \<le> strategySegmentsLimit cfg"
    and run: "updateStrategySegments cfg sid ids removals additions w = (r, w')"
    and rm: "promise_all cfg sid removals (map Removing (segmentIdsToRemove sid ids w))
               (snd (getByStrategy sid w)) = (p, w2)"
  shows "p = Fulfilled \<or> p = Pending"
    and "p = Pending \<Longrightarrow> r = Pending \<and> w' = w2"
    and "p = Fulfilled \<Longrightarrow>
           set (links w2) = set (links w) - (\<lambda>i. (i, sid)) ` set (segmentIdsToRemove sid ids w)
           \<and> segments w2 = segments w
           \<and> promise_all cfg sid additions (map Validating (segmentIdsToAdd sid ids w)) w2 = (r, w')"
proof -
  from rm have rm': "promise_all cfg sid removals (map Removing (segmentIdsToRemove sid ids w))
               (log_call (Store_getByStrategy sid) w) = (p, w2)"
    by (simp add: getByStrategy_eq)
  note a = promise_all_removals [OF removal_batch_map rm']
  from a have "\<forall>e. p \<noteq> Rejected e" by (rule conjunct1)
  then show "p = Fulfilled \<or> p = Pending" by (cases p) simp_all
  show "r = Pending \<and> w' = w2" if "p = Pending"
    using run rm' that by (simp add: updateStrategySegments_batches [OF le])
  show "set (links w2) = set (links w) - (\<lambda>i. (i, sid)) ` set (segmentIdsToRemove sid ids w)
           \<and> segments w2 = segments w
           \<and> promise_all cfg sid additions (map Validating (segmentIdsToAdd sid ids w)) w2 = (r, w')"
    if f: "p = Fulfilled"
  proof (intro conjI)
    from a f show "set (links w2) = set (links w) - (\<lambda>i. (i, sid)) ` set (segmentIdsToRemove sid ids w)"
      by auto
    from promise_all_frame [OF rm'] show "segments w2 = segments w" by simp
    from run rm' f show "promise_all cfg sid additions (map Validating (segmentIdsToAdd sid ids w)) w2 = (r, w')"
      by (simp add: updateStrategySegments_batches [OF le])
  qed
qed

lemma addToStrategy_at_limit:
  "strategySegmentsLimit cfg \<le> length (fst (getByStrategy sid w)) \<Longrightarrow>
     fst (addToStrategy cfg i sid w)
       = Inl (BadDataError (strategySegmentsLimit_message (strategySegmentsLimit cfg)))"
  by (simp add: addToStrategy_def validateStrategySegmentLimit_eq linked_def)

subsection \<open>Create, update and delete, step by step\<close>

lemma valuesCount_sum:
  "valuesCount segment =
     (\<Sum>c\<leftarrow>constraints segment. case constraint_values c of None \<Rightarrow> 0 | Some vs \<Rightarrow> length vs)"
proof -
  have "foldl (\<lambda>acc len. acc + len) a xs = a + sum_list xs" for a :: nat and xs
    by (induction xs arbitrary: a) simp_all
  then show ?thesis by (simp add: valuesCount_def)
qed

lemma validateName_eq:
  "validateName nm w =
     (if nm = [] then (Inl (BadDataError ''Segment name cannot be empty''), w)
      else if nm \<in> name ` set (segments w)
      then (Inl (NameExistsError ''Segment name already exists''),
            log_call (Store_existsByName nm) w)
      else (Inr (), log_call (Store_existsByName nm) w))"
  by (simp add: validateName_def store_existsByName_def)

lemma stored_fields [simp]:
  "seg_id (stored i input) = i"
  "name (stored i input) = name input"
  "description (stored i input) = description input"
  "project (stored i input) = project input"
  "constraints (stored i input) = constraints input"
  by (simp_all add: stored_def)

lemma create_eq:
  "create cfg segmentSchema raw actor w =
     (case segmentSchema raw of
        None \<Rightarrow> (Inl ValidationError, w)
      | Some input \<Rightarrow>
          if segmentValuesLimit cfg < valuesCount input
          then (Inl (BadDataError (segmentValuesLimit_message (segmentValuesLimit cfg))), w)
          else if name input = []
          then (Inl (BadDataError ''Segment name cannot be empty''), w)
          else if name input \<in> name ` set (segments w)
          then (Inl (NameExistsError ''Segment name already exists''),
                log_call (Store_existsByName (name input)) w)
          else (Inr (stored (nextId w) input),
                w\<lparr>segments := segments w @ [stored (nextId w) input],
                   nextId := Suc (nextId w),
                   events := events w @ [\<lparr>ev_type = SEGMENT_CREATED,
                      createdBy = js_or (email actor) (username actor),
                      data = stored (nextId w) input, preData = None\<rparr>],
                   calls := calls w @ [Store_existsByName (name input), Store_create input,
                      EventStore_store \<lparr>ev_type = SEGMENT_CREATED,
                      createdBy = js_or (email actor) (username actor),
                      data = stored (nextId w) input, preData = None\<rparr>]\<rparr>))"
  by (simp add: create_def validateSegmentValuesLimit_def validateName_eq store_create_def
        eventStore_store_def log_call_def Let_def split: option.splits)

lemma new_Set_props [simp]:
  "set (new_Set xs) = set xs"
  "length (new_Set xs) = card (set xs)"
  "distinct (new_Set xs)"
proof -
  show "set (new_Set xs) = set xs" "distinct (new_Set xs)"
    by (simp_all add: new_Set_def)
  have "length (new_Set xs) = length (remdups (rev xs))" by (simp add: new_Set_def)
  also have "\<dots> = card (set (rev xs))" by (rule length_remdups_card_conv)
  finally show "length (new_Set xs) = card (set xs)" by simp
qed

lemma set_projectsUsed:
  "set (projectsUsed i w) = projectId ` set (fst (getStrategiesBySegment i w))"
  by (simp add: projectsUsed_def)

lemma validateSegmentProject_eq:
  "validateSegmentProject i input w =
     ((if invalidProject i input w
       then Inl (BadDataError (invalidProject_message (projectsUsed i w)))
       else Inr ()),
      log_call (Strategies_getStrategiesBySegment i) w)"
  by (simp add: validateSegmentProject_def invalidProject_def projectsUsed_def
        getStrategiesBySegment_def Let_def)

lemma projectsUsed_calls [simp]: "projectsUsed i (w\<lparr>calls := cs\<rparr>) = projectsUsed i w"
  by (simp add: projectsUsed_def getStrategiesBySegment_def)

lemma projectsUsed_log_call [simp]: "projectsUsed i (log_call c w) = projectsUsed i w"
  by (simp add: log_call_def)

lemma invalidProject_calls [simp]:
  "invalidProject i input (w\<lparr>calls := cs\<rparr>) = invalidProject i input w"
  by (simp add: invalidProject_def)

lemma invalidProject_log_call [simp]:
  "invalidProject i input (log_call c w) = invalidProject i input w"
  by (simp add: log_call_def)

lemma store_get_eq:
  "store_get i w =
     ((case find (\<lambda>s. seg_id s = i) (segments w) of
         None \<Rightarrow> Inl NotFoundError | Some s \<Rightarrow> Inr s),
      log_call (Store_get i) w)"
  by (simp add: store_get_def)

lemma update_eq:
  "update cfg segmentSchema i raw actor w =
     (case segmentSchema raw of
        None \<Rightarrow> (Inl ValidationError, w)
      | Some input \<Rightarrow>
          if segmentValuesLimit cfg < valuesCount input
          then (Inl (BadDataError (segmentValuesLimit_message (segmentValuesLimit cfg))), w)
          else
            (case find (\<lambda>s. seg_id s = i) (segments w) of
               None \<Rightarrow> (Inl NotFoundError, w\<lparr>calls := calls w @ [Store_get i]\<rparr>)
             | Some pre \<Rightarrow>
                 if name pre \<noteq> name input \<and> name input = []
                 then (Inl (BadDataError ''Segment name cannot be empty''),
                       w\<lparr>calls := calls w @ [Store_get i]\<rparr>)
                 else if name pre \<noteq> name input \<and> name input \<in> name ` set (segments w)
                 then (Inl (NameExistsError ''Segment name already exists''),
                       w\<lparr>calls := calls w @ [Store_get i, Store_existsByName (name input)]\<rparr>)
                 else if invalidProject i input w
                 then (Inl (BadDataError (invalidProject_message (projectsUsed i w))),
                       w\<lparr>calls := calls w @ Store_get i
                            # (if name pre \<noteq> name input
                               then [Store_existsByName (name input)] else [])
                            @ [Strategies_getStrategiesBySegment i]\<rparr>)
                 else (Inr (),
                       w\<lparr>segments := map (\<lambda>t. if seg_id t = i then stored i input else t)
                                         (segments w),
                          events := events w @ [\<lparr>ev_type = SEGMENT_UPDATED,
                            createdBy = js_or (email actor) (username actor),
                            data = stored i input, preData = Some pre\<rparr>],
                          calls := calls w @ Store_get i
                            # (if name pre \<noteq> name input
                               then [Store_existsByName (name input)] else [])
                            @ [Strategies_getStrategiesBySegment i, Store_update i input,
                               EventStore_store \<lparr>ev_type = SEGMENT_UPDATED,
                                 createdBy = js_or (email actor) (username actor),
                                 data = stored i input, preData = Some pre\<rparr>]\<rparr>)))"
proof (cases "segmentSchema raw")
  case None
  then show ?thesis by (simp add: update_def)
next
  case (Some input)
  show ?thesis
  proof (cases "segmentValuesLimit cfg < valuesCount input")
    case True
    with Some show ?thesis by (simp add: update_def validateSegmentValuesLimit_def)
  next
    case ok: False
    show ?thesis
    proof (cases "find (\<lambda>s. seg_id s = i) (segments w)")
      case None
      with Some ok show ?thesis
        by (simp add: update_def validateSegmentValuesLimit_def store_get_eq log_call_def)
    next
      case (Some pre)
      show ?thesis
      proof (cases "name pre = name input")
        case True
        with \<open>segmentSchema raw = Some input\<close> ok Some show ?thesis
          by (simp add: update_def validateSegmentValuesLimit_def store_get_eq
                validateSegmentProject_eq store_update_def eventStore_store_def log_call_def Let_def)
      next
        case False
        with \<open>segmentSchema raw = Some input\<close> ok Some show ?thesis
          by (auto simp add: update_def validateSegmentValuesLimit_def store_get_eq validateName_eq
                validateSegmentProject_eq store_update_def eventStore_store_def log_call_def Let_def)
      qed
    qed
  qed
qed

lemma delete_eq:
  "delete i actor w =
     (case find (\<lambda>s. seg_id s = i) (segments w) of
        None \<Rightarrow> (Inl NotFoundError, w\<lparr>calls := calls w @ [Store_get i]\<rparr>)
      | Some segment \<Rightarrow>
          (Inr (),
           w\<lparr>segments := filter (\<lambda>s. seg_id s \<noteq> i) (segments w),
              links := filter (\<lambda>l. fst l \<noteq> i) (links w),
              events := events w @ [\<lparr>ev_type = SEGMENT_DELETED,
                createdBy = js_or (email actor) (username actor),
                data = segment, preData = None\<rparr>],
              calls := calls w @ [Store_get i, Store_delete i,
                EventStore_store \<lparr>ev_type = SEGMENT_DELETED,
                  createdBy = js_or (email actor) (username actor),
                  data = segment, preData = None\<rparr>]\<rparr>))"
  by (simp add: delete_def store_get_eq store_delete_def eventStore_store_def log_call_def
        split: option.splits)

lemma js_or_cases:
  "js_or a b = (case a of None \<Rightarrow> b | Some s \<Rightarrow> if s = [] then b else Some s)"
  by (cases a) (simp_all add: js_or_def)

lemma update_success:
  assumes "segmentSchema raw = Some input"
    and "\<not> segmentValuesLimit cfg < valuesCount input"
    and "find (\<lambda>s. seg_id s = i) (segments w) = Some pre"
    and "name pre = name input \<or> (name input \<noteq> [] \<and> name input \<notin> name ` set (segments w))"
    and "\<not> invalidProject i input w"
  shows "update cfg segmentSchema i raw actor w =
     (Inr (),
      w\<lparr>segments := map (\<lambda>t. if seg_id t = i then stored i input else t) (segments w),
         events := events w @ [updated_event actor i input pre],
         calls := calls w @ Store_get i
                    # (if name pre \<noteq> name input then [Store_existsByName (name input)] else [])
                    @ [Strategies_getStrategiesBySegment i, Store_update i input,
                       EventStore_store (updated_event actor i input pre)]\<rparr>)"
proof (cases "name pre = name input")
  case True
  with assms(1,2,3,5) show ?thesis by (simp add: update_eq updated_event_def)
next
  case False
  with assms(4) have "name input \<noteq> []" "name input \<notin> name ` set (segments w)" by simp_all
  with False assms(1,2,3,5) show ?thesis by (simp add: update_eq updated_event_def)
qed

lemma update_Inr_D:
  assumes "fst (update cfg segmentSchema i raw actor w) = Inr ()"
  obtains input pre where
    "segmentSchema raw = Some input"
    "\<not> segmentValuesLimit cfg < valuesCount input"
    "find (\<lambda>s. seg_id s = i) (segments w) = Some pre"
    "name pre = name input \<or> (name input \<noteq> [] \<and> name input \<notin> name ` set (segments w))"
    "\<not> invalidProject i input w"
proof -
  from assms obtain input where input: "segmentSchema raw = Some input"
    by (cases "segmentSchema raw") (simp_all add: update_eq)
  with assms have vals: "\<not> segmentValuesLimit cfg < valuesCount input"
    by (cases "segmentValuesLimit cfg < valuesCount input") (simp_all add: update_eq)
  with assms input obtain pre where pre: "find (\<lambda>s. seg_id s = i) (segments w) = Some pre"
    by (cases "find (\<lambda>s. seg_id s = i) (segments w)") (simp_all add: update_eq)
  have nm: "name pre = name input \<or> (name input \<noteq> [] \<and> name input \<notin> name ` set (segments w))"
  proof (rule ccontr)
    assume "\<not> ?thesis"
    then have "name pre \<noteq> name input"
      and "name input = [] \<or> name input \<in> name ` set (segments w)" by auto
    with assms input vals pre show False
      by (cases "name input = []") (simp_all add: update_eq)
  qed
  have pr: "\<not> invalidProject i input w"
  proof
    assume "invalidProject i input w"
    with assms input vals pre nm show False
      by (cases "name pre = name input") (auto simp add: update_eq)
  qed
  from input vals pre nm pr that show thesis by blast
qed

lemma create_actor_irrelevant:
  "fst (create cfg segmentSchema raw actor w) = fst (create cfg segmentSchema raw anyone w)"
  by (simp add: create_eq split: option.splits)

lemma update_actor_irrelevant:
  "fst (update cfg segmentSchema i raw actor w) = fst (update cfg segmentSchema i raw anyone w)"
  by (auto simp add: update_eq split: option.splits)

lemma delete_actor_irrelevant:
  "fst (delete i actor w) = fst (delete i anyone w)"
  by (simp add: delete_eq split: option.splits)

lemma create_createdBy:
  "fst (create cfg segmentSchema raw actor w) = Inr s \<Longrightarrow>
     createdBy (last (events (snd (create cfg segmentSchema raw actor w))))
       = js_or (email actor) (username actor)"
  by (auto simp add: create_eq split: option.splits if_splits)

lemma update_createdBy:
  assumes "fst (update cfg segmentSchema i raw actor w) = Inr ()"
  shows "createdBy (last (events (snd (update cfg segmentSchema i raw actor w))))
           = js_or (email actor) (username actor)"
proof -
  from assms obtain input pre where input: "segmentSchema raw = Some input"
    and vals: "\<not> segmentValuesLimit cfg < valuesCount input"
    and pre: "find (\<lambda>s. seg_id s = i) (segments w) = Some pre"
    and nm: "name pre = name input \<or> (name input \<noteq> [] \<and> name input \<notin> name ` set (segments w))"
    and pr: "\<not> invalidProject i input w"
    by (rule update_Inr_D)
  note run = update_success [where segmentSchema = segmentSchema and raw = raw and actor = actor,
      OF input vals pre nm pr]
  show ?thesis unfolding run by (simp add: updated_event_def)
qed

lemma delete_createdBy:
  "fst (delete i actor w) = Inr () \<Longrightarrow>
     createdBy (last (events (snd (delete i actor w)))) = js_or (email actor) (username actor)"
  by (auto simp add: delete_eq split: option.splits)

lemma length_projectsUsed:
  "length (projectsUsed i w) = card (projectId ` set (fst (getStrategiesBySegment i w)))"
  by (simp add: projectsUsed_def)

lemma invalidProject_iff:
  "invalidProject i input w \<longleftrightarrow>
     (\<exists>p. project input = Some p \<and> p \<noteq> []
        \<and> (1 < card (projectId ` set (fst (getStrategiesBySegment i w)))
             \<or> (card (projectId ` set (fst (getStrategiesBySegment i w))) = 1
                  \<and> p \<notin> projectId ` set (fst (getStrategiesBySegment i w)))))"
  by (cases "project input")
     (simp_all add: invalidProject_def length_projectsUsed set_projectsUsed)

lemma update_name_unchanged:
  assumes "segmentSchema raw = Some input"
    and "\<not> segmentValuesLimit cfg < valuesCount input"
    and "find (\<lambda>s. seg_id s = i) (segments w) = Some pre"
    and "name pre = name input"
  shows "update cfg segmentSchema i raw actor w =
     (if invalidProject i input w
      then (Inl (BadDataError (invalidProject_message (projectsUsed i w))),
            w\<lparr>calls := calls w @ [Store_get i, Strategies_getStrategiesBySegment i]\<rparr>)
      else (Inr (),
            w\<lparr>segments := map (\<lambda>t. if seg_id t = i then stored i input else t) (segments w),
               events := events w @ [updated_event actor i input pre],
               calls := calls w @ [Store_get i, Strategies_getStrategiesBySegment i,
                          Store_update i input,
                          EventStore_store (updated_event actor i input pre)]\<rparr>))"
  using assms by (simp add: update_eq updated_event_def)

lemma update_name_changed:
  assumes "segmentSchema raw = Some input"
    and "\<not> segmentValuesLimit cfg < valuesCount input"
    and "find (\<lambda>s. seg_id s = i) (segments w) = Some pre"
    and "name pre \<noteq> name input"
  shows "(name input = [] \<longrightarrow>
            update cfg segmentSchema i raw actor w
              = (Inl (BadDataError ''Segment name cannot be empty''),
                 w\<lparr>calls := calls w @ [Store_get i]\<rparr>))
       \<and> (name input \<noteq> [] \<and> name input \<in> name ` set (segments w) \<longrightarrow>
            update cfg segmentSchema i raw actor w
              = (Inl (NameExistsError ''Segment name already exists''),
                 w\<lparr>calls := calls w @ [Store_get i, Store_existsByName (name input)]\<rparr>))"
  using assms by (cases "name input = []") (auto simp add: update_eq)

lemma invalidProject_message_neq:
  "invalidProject_message ps \<noteq> segmentValuesLimit_message n"
  "invalidProject_message ps \<noteq> ''Segment name cannot be empty''"
  by (simp_all add: invalidProject_message_def segmentValuesLimit_message_def)

lemma update_invalidProject_iff:
  "fst (update cfg segmentSchema i raw actor w)
       = Inl (BadDataError (invalidProject_message (projectsUsed i w)))
   \<longleftrightarrow> (\<exists>input pre. segmentSchema raw = Some input
          \<and> valuesCount input \<le> segmentValuesLimit cfg
          \<and> find (\<lambda>s. seg_id s = i) (segments w) = Some pre
          \<and> (name pre = name input
               \<or> (name input \<noteq> [] \<and> name input \<notin> name ` set (segments w)))
          \<and> invalidProject i input w)"
proof (cases "segmentSchema raw")
  case None
  then show ?thesis by (simp add: update_eq)
next
  case (Some input)
  show ?thesis
  proof (cases "segmentValuesLimit cfg < valuesCount input")
    case True
    with Some show ?thesis by (simp add: update_eq invalidProject_message_neq [symmetric])
  next
    case ok: False
    show ?thesis
    proof (cases "find (\<lambda>s. seg_id s = i) (segments w)")
      case None
      with Some ok show ?thesis by (simp add: update_eq)
    next
      case (Some pre)
      show ?thesis
      proof (cases "name pre = name input")
        case True
        with \<open>segmentSchema raw = Some input\<close> ok Some show ?thesis
          by (simp add: update_eq)
      next
        case False
        with \<open>segmentSchema raw = Some input\<close> ok Some show ?thesis
          by (auto simp add: update_eq invalidProject_message_neq [symmetric])
      qed
    qed
  qed
qed

lemma new_calls_append [simp]: "new_calls w (w'\<lparr>calls := calls w @ cs\<rparr>) = cs"
  by (simp add: new_calls_def)

lemma create_calls_extend:
  "calls (snd (create cfg segmentSchema raw actor w))
     = calls w @ new_calls w (snd (create cfg segmentSchema raw actor w))"
  by (simp add: create_eq new_calls_def log_call_def split: option.splits)

lemma update_calls_extend:
  "calls (snd (update cfg segmentSchema i raw actor w))
     = calls w @ new_calls w (snd (update cfg segmentSchema i raw actor w))"
  by (simp add: update_eq new_calls_def split: option.splits)

lemma delete_calls_extend:
  "calls (snd (delete i actor w)) = calls w @ new_calls w (snd (delete i actor w))"
  by (simp add: delete_eq new_calls_def split: option.splits)

text \<open>The outcome of \<^verbatim>\<open>update\<close>, check by check in the order of the source.\<close>

lemma update_outcome:
  "(segmentSchema raw = None \<longrightarrow>
      fst (update cfg segmentSchema i raw actor w) = Inl ValidationError)
   \<and> (\<forall>input. segmentSchema raw = Some input \<longrightarrow>
        (segmentValuesLimit cfg < valuesCount input \<longrightarrow>
           fst (update cfg segmentSchema i raw actor w)
             = Inl (BadDataError (segmentValuesLimit_message (segmentValuesLimit cfg))))
        \<and> (valuesCount input \<le> segmentValuesLimit cfg
             \<and> find (\<lambda>s. seg_id s = i) (segments w) = None \<longrightarrow>
           fst (update cfg segmentSchema i raw actor w) = Inl NotFoundError)
        \<and> (\<forall>pre. valuesCount input \<le> segmentValuesLimit cfg
               \<and> find (\<lambda>s. seg_id s = i) (segments w) = Some pre \<longrightarrow>
             (name pre \<noteq> name input \<and> name input = [] \<longrightarrow>
                fst (update cfg segmentSchema i raw actor w)
                  = Inl (BadDataError ''Segment name cannot be empty''))
             \<and> (name pre \<noteq> name input \<and> name input \<noteq> []
                  \<and> name input \<in> name ` set (segments w) \<longrightarrow>
                fst (update cfg segmentSchema i raw actor w)
                  = Inl (NameExistsError ''Segment name already exists''))
             \<and> ((name pre = name input
                   \<or> (name input \<noteq> [] \<and> name input \<notin> name ` set (segments w)))
                  \<and> \<not> invalidProject i input w \<longrightarrow>
                fst (update cfg segmentSchema i raw actor w) = Inr ())))"
proof (intro conjI allI impI)
  fix input pre
  assume a: "segmentSchema raw = Some input"
    and b: "valuesCount input \<le> segmentValuesLimit cfg
               \<and> find (\<lambda>s. seg_id s = i) (segments w) = Some pre"
    and c: "(name pre = name input
                   \<or> (name input \<noteq> [] \<and> name input \<notin> name ` set (segments w)))
                  \<and> \<not> invalidProject i input w"
  from b have v: "\<not> segmentValuesLimit cfg < valuesCount input"
    and f: "find (\<lambda>s. seg_id s = i) (segments w) = Some pre" by simp_all
  from c have n: "name pre = name input
                   \<or> (name input \<noteq> [] \<and> name input \<notin> name ` set (segments w))"
    and p: "\<not> invalidProject i input w" by blast+
  show "fst (update cfg segmentSchema i raw actor w) = Inr ()"
    by (simp add: update_success [where segmentSchema = segmentSchema and raw = raw
          and actor = actor, OF a v f n p])
next
  fix input pre
  assume a: "segmentSchema raw = Some input"
    and b: "valuesCount input \<le> segmentValuesLimit cfg
               \<and> find (\<lambda>s. seg_id s = i) (segments w) = Some pre"
    and c: "name pre \<noteq> name input \<and> name input = []"
  from b have v: "\<not> segmentValuesLimit cfg < valuesCount input"
    and f: "find (\<lambda>s. seg_id s = i) (segments w) = Some pre" by simp_all
  from c have ne: "name pre \<noteq> name input" and e: "name input = []" by blast+
  from update_name_changed [where segmentSchema = segmentSchema and raw = raw
          and actor = actor, OF a v f ne] e
  show "fst (update cfg segmentSchema i raw actor w)
                  = Inl (BadDataError ''Segment name cannot be empty'')" by simp
next
  fix input pre
  assume a: "segmentSchema raw = Some input"
    and b: "valuesCount input \<le> segmentValuesLimit cfg
               \<and> find (\<lambda>s. seg_id s = i) (segments w) = Some pre"
    and c: "name pre \<noteq> name input \<and> name input \<noteq> []
                  \<and> name input \<in> name ` set (segments w)"
  from b have v: "\<not> segmentValuesLimit cfg < valuesCount input"
    and f: "find (\<lambda>s. seg_id s = i) (segments w) = Some pre" by simp_all
  from c have ne: "name pre \<noteq> name input" and e: "name input \<noteq> []"
    and h: "name input \<in> name ` set (segments w)" by blast+
  from update_name_changed [where segmentSchema = segmentSchema and raw = raw
          and actor = actor, OF a v f ne] e h
  show "fst (update cfg segmentSchema i raw actor w)
                  = Inl (NameExistsError ''Segment name already exists'')" by simp
qed (simp_all add: update_eq)

subsection \<open>The example states\<close>

lemma ex_world_fields:
  "segments ex_world = [ex_segment 1 ''eu-users'' None, ex_segment 2 ''beta'' None,
                  ex_segment 3 ''staff'' None]"
  "links ex_world = [(1, ''strat-1''), (2, ''strat-1''), (1, ''strat-2'')]"
  "events ex_world = []"
  "nextId ex_world = 4"
  "calls ex_world = []"
  by (simp_all add: ex_world_def)

lemma ex_segment_fields [simp]:
  "seg_id (ex_segment i nm p) = i"
  "name (ex_segment i nm p) = nm"
  "project (ex_segment i nm p) = p"
  "constraints (ex_segment i nm p) = []"
  by (simp_all add: ex_segment_def)

lemma ex_world_linked:
  "linked ''strat-1'' ex_world = [ex_segment 1 ''eu-users'' None, ex_segment 2 ''beta'' None]"
  by (simp add: linked_eq ex_world_fields)

lemma ex_swap_at_limit:
  "fst (updateStrategySegments (ex_config 2) ''strat-1'' [2, 3] [0] [0, 0] ex_world) = Fulfilled"
  by (simp add: updateStrategySegments_batches ex_config_def segmentIdsToRemove_def
        segmentIdsToAdd_def ex_world_linked task_step_cases linked_eq ex_world_fields)

lemma ex_swap_ids:
  "segmentIdsToRemove ''strat-1'' [3, 2] ex_world = [1]"
  "segmentIdsToAdd ''strat-1'' [3, 2] ex_world = [3]"
  by (simp_all add: segmentIdsToRemove_def segmentIdsToAdd_def ex_world_linked)

lemma ex_swap_calls:
  "calls (snd (updateStrategySegments (ex_config 2) ''strat-1'' [3, 2] [0] [0, 0] ex_world))
     = [Store_getByStrategy ''strat-1'', Store_removeFromStrategy 1 ''strat-1'',
        Store_getByStrategy ''strat-1'', Store_addToStrategy 3 ''strat-1'']"
  by (simp add: updateStrategySegments_batches ex_config_def ex_swap_ids
        task_step_cases linked_eq ex_world_fields)

lemma ex_input_fields [simp]:
  "name (ex_input nm p vs) = nm"
  "project (ex_input nm p vs) = p"
  "valuesCount (ex_input nm p vs) = length vs"
  by (simp_all add: ex_input_def valuesCount_def)

lemma ex_config_fields [simp]:
  "segmentValuesLimit (ex_config n) = 3"
  "strategySegmentsLimit (ex_config n) = n"
  by (simp_all add: ex_config_def)

lemma ex_world_names: "name ` set (segments ex_world) = {''eu-users'', ''beta'', ''staff''}"
  by (simp add: ex_world_fields)

lemma tables_calls [simp]: "tables (w\<lparr>calls := cs\<rparr>) = tables w"
  by (simp add: tables_def)

lemma ex_schema_Some [simp]: "ex_schema (Some x) = Some x" "ex_schema None = None"
  by (simp_all add: ex_schema_def)

lemma ex_actor_fields [simp]: "username (ex_actor u e) = u" "email (ex_actor u e) = e"
  by (simp_all add: ex_actor_def)

lemma ex_world_find:
  "find (\<lambda>s. seg_id s = 1) (segments ex_world) = Some (ex_segment 1 ''eu-users'' None)"
  "find (\<lambda>s. seg_id s = 2) (segments ex_world) = Some (ex_segment 2 ''beta'' None)"
  "find (\<lambda>s. seg_id s = 3) (segments ex_world) = Some (ex_segment 3 ''staff'' None)"
  by (simp_all add: ex_world_fields)

lemma ex_world_projectsUsed:
  "projectsUsed 1 ex_world = [''P'', ''Q'']"
  "projectsUsed 2 ex_world = [''P'']"
  "projectsUsed 3 ex_world = []"
  by (simp_all add: projectsUsed_def getStrategiesBySegment_def ex_world_def new_Set_def)

lemma ex_world_strategies:
  "projectId ` set (fst (getStrategiesBySegment 1 ex_world)) = {''P'', ''Q''}"
  "projectId ` set (fst (getStrategiesBySegment 2 ex_world)) = {''P''}"
  "fst (getStrategiesBySegment 3 ex_world) = []"
  by (auto simp add: getStrategiesBySegment_def ex_world_def)

section \<open>The claims\<close>

text \<open>
  C1. Whenever \<^verbatim>\<open>updateStrategySegments(strategyId, ids)\<close> succeeds, whatever the order in
  which the store serves the calls of its two batches, the list \<open>ids\<close> is within
  \<^verbatim>\<open>strategySegmentsLimit\<close> and the segments \<^verbatim>\<open>getByStrategy(strategyId)\<close> returns
  afterwards are exactly those whose ids are in \<open>ids\<close>. The ids are ids of stored
  segments; nothing else touches the store during the call.
\<close>

theorem updateStrategySegments_reconciles:
  assumes "updateStrategySegments cfg strategyId ids removals additions w = (Fulfilled, w')"
    and "set ids \<subseteq> seg_id ` set (segments w)"
  shows "length ids \<le> strategySegmentsLimit cfg
       \<and> seg_id ` set (fst (getByStrategy strategyId w')) = set ids"
proof
  from assms(1) show "length ids \<le> strategySegmentsLimit cfg"
    by (rule updateStrategySegments_fulfilledD)
  from updateStrategySegments_linked_ids [OF assms(1)] assms(2)
  show "seg_id ` set (fst (getByStrategy strategyId w')) = set ids"
    by (auto simp add: linked_def)
qed

theorem updateStrategySegments_reconciles_witness:
  "fst (updateStrategySegments (ex_config 2) ''strat-1'' [2, 3] [0] [0, 0] ex_world) = Fulfilled
   \<and> seg_id ` set (fst (getByStrategy ''strat-1''
         (snd (updateStrategySegments (ex_config 2) ''strat-1'' [2, 3] [0] [0, 0] ex_world))))
       = {2, 3}"
proof -
  let ?r = "updateStrategySegments (ex_config 2) ''strat-1'' [2, 3] [0] [0, 0] ex_world"
  have run: "?r = (Fulfilled, snd ?r)"
    using ex_swap_at_limit by (simp add: prod_eq_iff)
  have ids: "set [2, 3] \<subseteq> seg_id ` set (segments ex_world)"
    by (simp add: ex_world_fields)
  from updateStrategySegments_reconciles [OF run ids] ex_swap_at_limit
  show ?thesis by simp
qed

text \<open>
  C2. A list longer than \<^verbatim>\<open>strategySegmentsLimit\<close> is rejected before any store call: the
  state, record of calls included, is the one before. Otherwise the calls of
  \<^verbatim>\<open>updateStrategySegments\<close> are one read of the current links, then removals of links
  in current - desired only, then limit checks and additions of links in
  desired - current only; once the first call of an addition is made, every removal has
  been made. The batch of additions starts only when the batch of removals is
  fulfilled, in a state whose links are those before without every link in
  current - desired; a removal batch left pending leaves the call pending and no
  addition is made. Each limit check of an addition, wherever the schedule places it,
  is \<^verbatim>\<open>validateStrategySegmentLimit\<close> run on the state the batch has reached then
  (\<open>advance\<close>): that state holds none of the removed links, all of the kept ones and
  at most the links to add, so the segments the check counts are among the desired
  ones; the check rejects the whole call when it counts \<^verbatim>\<open>strategySegmentsLimit\<close> or
  more, and when the stored segments have distinct ids it counts fewer and passes.
  So, when the stored segments have distinct ids and the schedules serve every call
  of the two batches (\<open>fair\<close>), a list within the limit is never rejected and the
  reconciliation succeeds; in particular, replacing one segment by another when the
  strategy is at exactly the limit succeeds, although \<^verbatim>\<open>addToStrategy\<close> alone on the
  links before is rejected there. A fulfilled call leaves the links before, without
  those in current - desired and with those in desired - current, and the stored
  segments as they were.
\<close>

theorem updateStrategySegments_removals_first:
  assumes "updateStrategySegments cfg strategyId ids removals additions w = (r, w')"
  shows "(strategySegmentsLimit cfg < length ids \<longrightarrow>
            r = Rejected (BadDataError (strategySegmentsLimit_message (strategySegmentsLimit cfg)))
            \<and> w' = w)
       \<and> (length ids \<le> strategySegmentsLimit cfg \<longrightarrow>
            (\<exists>rs as. calls w' = calls w @ Store_getByStrategy strategyId # rs @ as
               \<and> set rs \<subseteq> (\<lambda>i. Store_removeFromStrategy i strategyId)
                              ` (seg_id ` set (fst (getByStrategy strategyId w)) - set ids)
               \<and> set as \<subseteq> insert (Store_getByStrategy strategyId)
                              ((\<lambda>i. Store_addToStrategy i strategyId)
                                 ` (set ids - seg_id ` set (fst (getByStrategy strategyId w))))
               \<and> (as \<noteq> [] \<longrightarrow>
                     set rs = (\<lambda>i. Store_removeFromStrategy i strategyId)
                                ` (seg_id ` set (fst (getByStrategy strategyId w)) - set ids))))
       \<and> (length ids \<le> strategySegmentsLimit cfg
            \<and> distinct (map seg_id (segments w))
            \<and> fair removals (length (segmentIdsToRemove strategyId ids w)) 1
            \<and> fair additions (length (segmentIdsToAdd strategyId ids w)) 2
            \<longrightarrow> r = Fulfilled)
       \<and> (\<forall>old new.
            length (fst (getByStrategy strategyId w)) = strategySegmentsLimit cfg
            \<and> ids = map (\<lambda>j. if j = old then new else j)
                        (map seg_id (fst (getByStrategy strategyId w)))
            \<and> distinct (map seg_id (segments w))
            \<and> fair removals (length (segmentIdsToRemove strategyId ids w)) 1
            \<and> fair additions (length (segmentIdsToAdd strategyId ids w)) 2
            \<longrightarrow> r = Fulfilled)
       \<and> (r = Fulfilled \<longrightarrow>
            set (links w')
              = set (links w)
                  - (\<lambda>i. (i, strategyId))
                      ` (seg_id ` set (fst (getByStrategy strategyId w)) - set ids)
                  \<union> (\<lambda>i. (i, strategyId))
                      ` (set ids - seg_id ` set (fst (getByStrategy strategyId w)))
            \<and> segments w' = segments w)
       \<and> (length ids \<le> strategySegmentsLimit cfg \<longrightarrow>
            (\<forall>p w2.
               promise_all cfg strategyId removals
                   (map Removing (segmentIdsToRemove strategyId ids w))
                   (snd (getByStrategy strategyId w)) = (p, w2) \<longrightarrow>
               (p = Fulfilled \<or> p = Pending)
               \<and> (p = Pending \<longrightarrow> r = Pending \<and> w' = w2)
               \<and> (p = Fulfilled \<longrightarrow>
                    set (links w2)
                      = set (links w)
                          - (\<lambda>i. (i, strategyId))
                              ` (seg_id ` set (fst (getByStrategy strategyId w)) - set ids)
                    \<and> segments w2 = segments w
                    \<and> promise_all cfg strategyId additions
                          (map Validating (segmentIdsToAdd strategyId ids w)) w2 = (r, w')
                    \<and> (\<forall>pre k post ts w3 i.
                          additions = pre @ k # post
                          \<and> advance cfg strategyId pre
                                (map Validating (segmentIdsToAdd strategyId ids w)) w2
                              = Inr (ts, w3)
                          \<and> k < length ts \<and> ts ! k = Validating i \<longrightarrow>
                          advance cfg strategyId (pre @ [k])
                                (map Validating (segmentIdsToAdd strategyId ids w)) w2
                              = (case validateStrategySegmentLimit cfg strategyId w3 of
                                   (Inl e, u) \<Rightarrow> Inl (e, u)
                                 | (Inr _, u) \<Rightarrow> Inr (ts[k := Inserting i], u))
                          \<and> set (links w)
                                - (\<lambda>i. (i, strategyId))
                                    ` (seg_id ` set (fst (getByStrategy strategyId w)) - set ids)
                              \<subseteq> set (links w3)
                          \<and> set (links w3)
                              \<subseteq> set (links w)
                                  - (\<lambda>i. (i, strategyId))
                                      ` (seg_id ` set (fst (getByStrategy strategyId w)) - set ids)
                                  \<union> (\<lambda>i. (i, strategyId))
                                      ` (set ids - seg_id ` set (fst (getByStrategy strategyId w)))
                          \<and> seg_id ` set (fst (getByStrategy strategyId w3)) \<subseteq> set ids
                          \<and> (strategySegmentsLimit cfg
                                \<le> length (fst (getByStrategy strategyId w3)) \<longrightarrow>
                              r = Rejected (BadDataError
                                    (strategySegmentsLimit_message (strategySegmentsLimit cfg))))
                          \<and> (distinct (map seg_id (segments w)) \<longrightarrow>
                              length (fst (getByStrategy strategyId w3))
                                < strategySegmentsLimit cfg)))))
       \<and> (\<forall>new.
            strategySegmentsLimit cfg \<le> length (fst (getByStrategy strategyId w)) \<longrightarrow>
            fst (addToStrategy cfg new strategyId w)
              = Inl (BadDataError (strategySegmentsLimit_message (strategySegmentsLimit cfg))))
       \<and> (\<forall>pre post ts u.
            promise_all cfg strategyId (pre @ post) ts u
              = (case advance cfg strategyId pre ts u of
                   Inl (e, u') \<Rightarrow> (Rejected e, u')
                 | Inr (ts', u') \<Rightarrow> promise_all cfg strategyId post ts' u'))"
proof (intro conjI impI allI)
  fix old new
  assume swap: "length (fst (getByStrategy strategyId w)) = strategySegmentsLimit cfg
            \<and> ids = map (\<lambda>j. if j = old then new else j)
                        (map seg_id (fst (getByStrategy strategyId w)))
            \<and> distinct (map seg_id (segments w))
            \<and> fair removals (length (segmentIdsToRemove strategyId ids w)) 1
            \<and> fair additions (length (segmentIdsToAdd strategyId ids w)) 2"
  then have full: "length (fst (getByStrategy strategyId w)) = strategySegmentsLimit cfg"
    and ids: "ids = map (\<lambda>j. if j = old then new else j)
                        (map seg_id (fst (getByStrategy strategyId w)))"
    and d: "distinct (map seg_id (segments w))"
    and f1: "fair removals (length (segmentIdsToRemove strategyId ids w)) 1"
    and f2: "fair additions (length (segmentIdsToAdd strategyId ids w)) 2"
    by blast+
  from ids have "length ids = length (fst (getByStrategy strategyId w))" by simp
  with full have le: "length ids \<le> strategySegmentsLimit cfg" by simp
  from updateStrategySegments_fulfilled [OF le d f1 f2] assms
  show "r = Fulfilled" by simp
next
  assume "strategySegmentsLimit cfg < length ids"
  from updateStrategySegments_too_many [OF this] assms
  show "r = Rejected (BadDataError (strategySegmentsLimit_message (strategySegmentsLimit cfg)))"
    and "w' = w" by simp_all
next
  assume "length ids \<le> strategySegmentsLimit cfg"
  from updateStrategySegments_calls [OF this assms]
  show "\<exists>rs as. calls w' = calls w @ Store_getByStrategy strategyId # rs @ as
               \<and> set rs \<subseteq> (\<lambda>i. Store_removeFromStrategy i strategyId)
                              ` (seg_id ` set (fst (getByStrategy strategyId w)) - set ids)
               \<and> set as \<subseteq> insert (Store_getByStrategy strategyId)
                              ((\<lambda>i. Store_addToStrategy i strategyId)
                                 ` (set ids - seg_id ` set (fst (getByStrategy strategyId w))))
               \<and> (as \<noteq> [] \<longrightarrow>
                     set rs = (\<lambda>i. Store_removeFromStrategy i strategyId)
                                ` (seg_id ` set (fst (getByStrategy strategyId w)) - set ids))"
    unfolding set_segmentIdsToRemove set_segmentIdsToAdd .
next
  assume "length ids \<le> strategySegmentsLimit cfg
            \<and> distinct (map seg_id (segments w))
            \<and> fair removals (length (segmentIdsToRemove strategyId ids w)) 1
            \<and> fair additions (length (segmentIdsToAdd strategyId ids w)) 2"
  then have "fst (updateStrategySegments cfg strategyId ids removals additions w) = Fulfilled"
    by (intro updateStrategySegments_fulfilled) simp_all
  with assms show "r = Fulfilled" by simp
next
  assume f: "r = Fulfilled"
  from assms f
  have run: "updateStrategySegments cfg strategyId ids removals additions w = (Fulfilled, w')"
    by simp
  from updateStrategySegments_links(1) [OF run]
  show "set (links w')
          = set (links w)
              - (\<lambda>i. (i, strategyId))
                  ` (seg_id ` set (fst (getByStrategy strategyId w)) - set ids)
              \<union> (\<lambda>i. (i, strategyId))
                  ` (set ids - seg_id ` set (fst (getByStrategy strategyId w)))"
    unfolding set_segmentIdsToRemove set_segmentIdsToAdd .
  from updateStrategySegments_links(2) [OF run]
  show "segments w' = segments w" .
next
  fix pre post ts u
  show "promise_all cfg strategyId (pre @ post) ts u
          = (case advance cfg strategyId pre ts u of
               Inl (e, u') \<Rightarrow> (Rejected e, u')
             | Inr (ts', u') \<Rightarrow> promise_all cfg strategyId post ts' u')"
    by (rule promise_all_advance)
next
  fix new
  assume "strategySegmentsLimit cfg \<le> length (fst (getByStrategy strategyId w))"
  then show "fst (addToStrategy cfg new strategyId w)
       = Inl (BadDataError (strategySegmentsLimit_message (strategySegmentsLimit cfg)))"
    by (rule addToStrategy_at_limit)
next
  fix p w2
  assume le: "length ids \<le> strategySegmentsLimit cfg"
    and rm: "promise_all cfg strategyId removals
                   (map Removing (segmentIdsToRemove strategyId ids w))
                   (snd (getByStrategy strategyId w)) = (p, w2)"
  note ph = updateStrategySegments_phases [OF le assms rm]
  from ph(1) show "p = Fulfilled \<or> p = Pending" .
  {
    assume "p = Pending"
    from ph(2) [OF this] show "r = Pending" and "w' = w2" by simp_all
  }
  {
    assume f: "p = Fulfilled"
    from ph(3) [OF f]
    have l2: "set (links w2) = set (links w)
                - (\<lambda>i. (i, strategyId)) ` set (segmentIdsToRemove strategyId ids w)"
      and s2: "segments w2 = segments w"
      and ad: "promise_all cfg strategyId additions
                 (map Validating (segmentIdsToAdd strategyId ids w)) w2 = (r, w')"
      by simp_all
    from l2 show "set (links w2)
                      = set (links w)
                          - (\<lambda>i. (i, strategyId))
                              ` (seg_id ` set (fst (getByStrategy strategyId w)) - set ids)"
      unfolding set_segmentIdsToRemove .
    from s2 show "segments w2 = segments w" .
    from ad show "promise_all cfg strategyId additions
                 (map Validating (segmentIdsToAdd strategyId ids w)) w2 = (r, w')" .
    fix pre k post ts w3 i
    assume h: "additions = pre @ k # post
                 \<and> advance cfg strategyId pre
                       (map Validating (segmentIdsToAdd strategyId ids w)) w2
                     = Inr (ts, w3)
                 \<and> k < length ts \<and> ts ! k = Validating i"
    then have split: "additions = pre @ k # post"
      and adv: "advance cfg strategyId pre
                  (map Validating (segmentIdsToAdd strategyId ids w)) w2 = Inr (ts, w3)"
      and k: "k < length ts" "ts ! k = Validating i"
      by blast+
    note chk = limit_check_in_additions [OF s2 l2 le ad split adv k]
    from chk(1) show "advance cfg strategyId (pre @ [k])
                                (map Validating (segmentIdsToAdd strategyId ids w)) w2
                              = (case validateStrategySegmentLimit cfg strategyId w3 of
                                   (Inl e, u) \<Rightarrow> Inl (e, u)
                                 | (Inr _, u) \<Rightarrow> Inr (ts[k := Inserting i], u))" .
    from chk(2) show "set (links w)
                                - (\<lambda>i. (i, strategyId))
                                    ` (seg_id ` set (fst (getByStrategy strategyId w)) - set ids)
                              \<subseteq> set (links w3)"
      unfolding set_segmentIdsToRemove .
    from chk(3) show "set (links w3)
                              \<subseteq> set (links w)
                                  - (\<lambda>i. (i, strategyId))
                                      ` (seg_id ` set (fst (getByStrategy strategyId w)) - set ids)
                                  \<union> (\<lambda>i. (i, strategyId))
                                      ` (set ids - seg_id ` set (fst (getByStrategy strategyId w)))"
      unfolding set_segmentIdsToRemove set_segmentIdsToAdd .
    from chk(4) show "seg_id ` set (fst (getByStrategy strategyId w3)) \<subseteq> set ids"
      unfolding linked_def .
    {
      assume "strategySegmentsLimit cfg \<le> length (fst (getByStrategy strategyId w3))"
      then have "strategySegmentsLimit cfg \<le> length (linked strategyId w3)"
        unfolding linked_def .
      from chk(5) [OF this]
      show "r = Rejected (BadDataError
                 (strategySegmentsLimit_message (strategySegmentsLimit cfg)))" .
    }
    {
      assume "distinct (map seg_id (segments w))"
      from chk(6) [OF this]
      show "length (fst (getByStrategy strategyId w3)) < strategySegmentsLimit cfg"
        unfolding linked_def .
    }
  }
qed

theorem updateStrategySegments_removals_first_witness:
  "updateStrategySegments (ex_config 1) ''strat-1'' [3, 2] [0] [0, 0] ex_world
     = (Rejected (BadDataError ''Strategies may not have more than 1 segments''), ex_world)
   \<and> length (fst (getByStrategy ''strat-1'' ex_world)) = strategySegmentsLimit (ex_config 2)
   \<and> [3, 2] = map (\<lambda>j. if j = 1 then 3 else j)
                 (map seg_id (fst (getByStrategy ''strat-1'' ex_world)))
   \<and> fst (updateStrategySegments (ex_config 2) ''strat-1'' [3, 2] [0] [0, 0] ex_world) = Fulfilled
   \<and> calls (snd (updateStrategySegments (ex_config 2) ''strat-1'' [3, 2] [0] [0, 0] ex_world))
     = [Store_getByStrategy ''strat-1'', Store_removeFromStrategy 1 ''strat-1'',
        Store_getByStrategy ''strat-1'', Store_addToStrategy 3 ''strat-1'']
   \<and> set (links (snd (updateStrategySegments (ex_config 2) ''strat-1'' [3, 2] [0] [0, 0] ex_world)))
     = {(2, ''strat-1''), (1, ''strat-2''), (3, ''strat-1'')}
   \<and> fst (addToStrategy (ex_config 2) 3 ''strat-1'' ex_world)
       = Inl (BadDataError ''Strategies may not have more than 2 segments'')
   \<and> map seg_id (fst (getByStrategy ''strat-1''
        (snd (promise_all (ex_config 2) ''strat-1'' [0]
               (map Removing (segmentIdsToRemove ''strat-1'' [3, 2] ex_world))
               (snd (getByStrategy ''strat-1'' ex_world)))))) = [2]
   \<and> length (fst (getByStrategy ''strat-1''
        (snd (promise_all (ex_config 2) ''strat-1'' [0]
               (map Removing (segmentIdsToRemove ''strat-1'' [3, 2] ex_world))
               (snd (getByStrategy ''strat-1'' ex_world))))))
       < strategySegmentsLimit (ex_config 2)
   \<and> fst (validateStrategySegmentLimit (ex_config 2) ''strat-1''
        (snd (promise_all (ex_config 2) ''strat-1'' [0]
               (map Removing (segmentIdsToRemove ''strat-1'' [3, 2] ex_world))
               (snd (getByStrategy ''strat-1'' ex_world))))) = Inr ()"
proof -
  let ?r1 = "updateStrategySegments (ex_config 1) ''strat-1'' [3, 2] [0] [0, 0] ex_world"
  let ?r2 = "updateStrategySegments (ex_config 2) ''strat-1'' [3, 2] [0] [0, 0] ex_world"
  have p1: "?r1 = (fst ?r1, snd ?r1)" and p2: "?r2 = (fst ?r2, snd ?r2)" by simp_all
  have many: "strategySegmentsLimit (ex_config 1) < length [3::nat, 2]"
    by simp
  have full: "length (fst (getByStrategy ''strat-1'' ex_world)) = strategySegmentsLimit (ex_config 2)"
    using ex_world_linked by (simp add: linked_def)
  have swap: "[3, 2] = map (\<lambda>j. if j = 1 then 3 else j)
                 (map seg_id (fst (getByStrategy ''strat-1'' ex_world)))"
    using ex_world_linked by (simp add: linked_def)
  have d: "distinct (map seg_id (segments ex_world))"
    by (simp add: ex_world_fields)
  have f1: "fair [0] (length (segmentIdsToRemove ''strat-1'' [3, 2] ex_world)) 1"
    by (simp add: ex_swap_ids fair_def)
  have f2: "fair [0, 0] (length (segmentIdsToAdd ''strat-1'' [3, 2] ex_world)) 2"
    by (simp add: ex_swap_ids fair_def)
  from updateStrategySegments_removals_first [OF p1] many
  have a: "?r1 = (Rejected (BadDataError (strategySegmentsLimit_message 1)), ex_world)"
    by (simp add: prod_eq_iff)
  have "length (fst (getByStrategy ''strat-1'' ex_world)) = strategySegmentsLimit (ex_config 2)
          \<and> [3, 2] = map (\<lambda>j. if j = 1 then 3 else j)
                 (map seg_id (fst (getByStrategy ''strat-1'' ex_world)))
          \<and> distinct (map seg_id (segments ex_world))
          \<and> fair [0] (length (segmentIdsToRemove ''strat-1'' [3, 2] ex_world)) 1
          \<and> fair [0, 0] (length (segmentIdsToAdd ''strat-1'' [3, 2] ex_world)) 2
        \<longrightarrow> fst ?r2 = Fulfilled"
    by (rule updateStrategySegments_removals_first [OF p2, THEN conjunct2, THEN conjunct2,
          THEN conjunct2, THEN conjunct1, THEN spec, THEN spec])
  moreover from full swap d f1 f2
  have "length (fst (getByStrategy ''strat-1'' ex_world)) = strategySegmentsLimit (ex_config 2)
          \<and> [3, 2] = map (\<lambda>j. if j = 1 then 3 else j)
                 (map seg_id (fst (getByStrategy ''strat-1'' ex_world)))
          \<and> distinct (map seg_id (segments ex_world))
          \<and> fair [0] (length (segmentIdsToRemove ''strat-1'' [3, 2] ex_world)) 1
          \<and> fair [0, 0] (length (segmentIdsToAdd ''strat-1'' [3, 2] ex_world)) 2"
    by (intro conjI)
  ultimately have b: "fst ?r2 = Fulfilled" by (rule mp)
  define w2 where "w2 = snd (promise_all (ex_config 2) ''strat-1'' [0]
               (map Removing (segmentIdsToRemove ''strat-1'' [3, 2] ex_world))
               (snd (getByStrategy ''strat-1'' ex_world)))"
  have atl: "strategySegmentsLimit (ex_config 2) \<le> length (fst (getByStrategy ''strat-1'' ex_world))"
    using full by simp
  have le: "length [3::nat, 2] \<le> strategySegmentsLimit (ex_config 2)" by simp
  have cur: "seg_id ` set (fst (getByStrategy ''strat-1'' ex_world)) = {1, 2}"
    using ex_world_linked by (auto simp add: linked_def)
  have rm: "promise_all (ex_config 2) ''strat-1'' [0]
               (map Removing (segmentIdsToRemove ''strat-1'' [3, 2] ex_world))
               (snd (getByStrategy ''strat-1'' ex_world)) = (Fulfilled, w2)"
    unfolding w2_def by (simp add: ex_swap_ids task_step_cases)
  have l2: "links w2 = [(2, ''strat-1''), (1, ''strat-2'')]"
    unfolding w2_def by (simp add: ex_swap_ids task_step_cases getByStrategy_eq ex_world_fields)
  have s2: "segments w2 = segments ex_world"
    unfolding w2_def by (simp add: ex_swap_ids task_step_cases getByStrategy_eq)
  have adv: "advance (ex_config 2) ''strat-1'' []
               (map Validating (segmentIdsToAdd ''strat-1'' [3, 2] ex_world)) w2
               = Inr ([Validating 3], w2)"
    by (simp add: ex_swap_ids)
  note th = updateStrategySegments_removals_first [OF p2]
  from th [THEN conjunct2, THEN conjunct2, THEN conjunct2, THEN conjunct2, THEN conjunct1,
          THEN mp, OF b]
  have e: "set (links (snd ?r2))
              = set (links ex_world)
                  - (\<lambda>i. (i, ''strat-1''))
                      ` (seg_id ` set (fst (getByStrategy ''strat-1'' ex_world)) - set [3, 2])
                  \<union> (\<lambda>i. (i, ''strat-1''))
                      ` (set [3, 2] - seg_id ` set (fst (getByStrategy ''strat-1'' ex_world)))"
    by (rule conjunct1)
  have e': "set (links (snd ?r2)) = {(2, ''strat-1''), (1, ''strat-2''), (3, ''strat-1'')}"
    unfolding e cur by (auto simp add: ex_world_fields)
  from th [THEN conjunct2, THEN conjunct2, THEN conjunct2, THEN conjunct2, THEN conjunct2,
          THEN conjunct2, THEN conjunct1, THEN spec, THEN mp, OF atl]
  have g: "fst (addToStrategy (ex_config 2) 3 ''strat-1'' ex_world)
       = Inl (BadDataError (strategySegmentsLimit_message (strategySegmentsLimit (ex_config 2))))"
    .
  have h: "[0, 0] = [] @ 0 # [0]
           \<and> advance (ex_config 2) ''strat-1'' []
               (map Validating (segmentIdsToAdd ''strat-1'' [3, 2] ex_world)) w2
               = Inr ([Validating 3], w2)
           \<and> 0 < length [Validating 3] \<and> [Validating 3] ! 0 = Validating 3"
    using adv by simp
  from th [THEN conjunct2, THEN conjunct2, THEN conjunct2, THEN conjunct2, THEN conjunct2,
          THEN conjunct1, THEN mp, OF le, THEN spec, THEN spec, THEN mp, OF rm,
          THEN conjunct2, THEN conjunct2, THEN mp, OF refl,
          THEN conjunct2, THEN conjunct2, THEN conjunct2,
          THEN spec, THEN spec, THEN spec, THEN spec, THEN spec, THEN spec, THEN mp, OF h]
  have chk: "distinct (map seg_id (segments ex_world)) \<longrightarrow>
               length (fst (getByStrategy ''strat-1'' w2)) < strategySegmentsLimit (ex_config 2)"
    by blast
  with d have lt: "length (fst (getByStrategy ''strat-1'' w2)) < strategySegmentsLimit (ex_config 2)"
    by (rule rev_mp)
  have ids: "map seg_id (fst (getByStrategy ''strat-1'' w2)) = [2]"
    by (simp add: getByStrategy_eq linked_eq l2 s2 ex_world_fields)
  have ok: "fst (validateStrategySegmentLimit (ex_config 2) ''strat-1'' w2) = Inr ()"
    using lt by (simp add: validateStrategySegmentLimit_eq linked_def)
  have a': "?r1 = (Rejected (BadDataError ''Strategies may not have more than 1 segments''),
                   ex_world)"
    using a by (simp add: strategySegmentsLimit_message_def)
  have g': "fst (addToStrategy (ex_config 2) 3 ''strat-1'' ex_world)
       = Inl (BadDataError ''Strategies may not have more than 2 segments'')"
    using g by (simp add: strategySegmentsLimit_message_def)
  from a' full swap b ex_swap_calls e' g' ids lt ok show ?thesis
    unfolding w2_def by (intro conjI)
qed

text \<open>
  C3. \<^verbatim>\<open>addToStrategy(segmentId, strategyId)\<close> fails with the limit error (a
  \<^verbatim>\<open>BadDataError\<close> whose message is "Strategies may not have more than N segments")
  exactly when the number of segments \<^verbatim>\<open>getByStrategy(strategyId)\<close> returns is at least
  \<^verbatim>\<open>strategySegmentsLimit\<close>. On that failure the tables of the stores are the ones before
  and so is the number of linked segments. Otherwise the call succeeds and the link is
  in the link table.
\<close>

theorem addToStrategy_limit:
  "(fst (addToStrategy cfg i strategyId w)
      = Inl (BadDataError (strategySegmentsLimit_message (strategySegmentsLimit cfg)))
    \<longleftrightarrow> strategySegmentsLimit cfg \<le> length (fst (getByStrategy strategyId w)))
   \<and> (strategySegmentsLimit cfg \<le> length (fst (getByStrategy strategyId w)) \<longrightarrow>
        tables (snd (addToStrategy cfg i strategyId w)) = tables w
        \<and> length (fst (getByStrategy strategyId (snd (addToStrategy cfg i strategyId w))))
            = length (fst (getByStrategy strategyId w)))
   \<and> (length (fst (getByStrategy strategyId w)) < strategySegmentsLimit cfg \<longrightarrow>
        fst (addToStrategy cfg i strategyId w) = Inr ()
        \<and> set (links (snd (addToStrategy cfg i strategyId w)))
            = insert (i, strategyId) (set (links w))
        \<and> segments (snd (addToStrategy cfg i strategyId w)) = segments w)"
  by (auto simp add: addToStrategy_def validateStrategySegmentLimit_eq getByStrategy_eq
        linked_eq tables_def)

theorem addToStrategy_limit_witness:
  "fst (addToStrategy (ex_config 2) 3 ''strat-1'' ex_world)
     = Inl (BadDataError ''Strategies may not have more than 2 segments'')
   \<and> tables (snd (addToStrategy (ex_config 2) 3 ''strat-1'' ex_world)) = tables ex_world
   \<and> fst (addToStrategy (ex_config 3) 3 ''strat-1'' ex_world) = Inr ()
   \<and> set (links (snd (addToStrategy (ex_config 3) 3 ''strat-1'' ex_world)))
       = {(1, ''strat-1''), (2, ''strat-1''), (1, ''strat-2''), (3, ''strat-1'')}"
proof -
  have n: "length (fst (getByStrategy ''strat-1'' ex_world)) = 2"
    using ex_world_linked by (simp add: linked_def)
  from addToStrategy_limit [of "ex_config 2" 3 "''strat-1''" ex_world]
       addToStrategy_limit [of "ex_config 3" 3 "''strat-1''" ex_world]
  show ?thesis
    unfolding n
    by (simp add: ex_config_def strategySegmentsLimit_message_def ex_world_fields) auto
qed

text \<open>
  C4. \<^verbatim>\<open>update(id, candidate, actor)\<close> is rejected with the invalid-project error (the
  \<^verbatim>\<open>BadDataError\<close> "Invalid project. Segment is being used by strategies in other
  projects: ...") if and only if the update reaches the project check, that is the
  candidate passes the schema and the values limit, the segment exists, and the name is
  unchanged or is a non-empty name no stored segment holds, and there the candidate's
  project is a non-empty string and either more than one distinct project id occurs
  among the strategies linked to the segment, or exactly one occurs and it is not the
  candidate's project. With no linked strategy, or with the candidate's project
  unset, the project check always passes. An update that an earlier check rejects
  fails with that check's error, whatever the projects are: \<open>ValidationError\<close> from the
  schema, then the values-limit \<^verbatim>\<open>BadDataError\<close>, then \<open>NotFoundError\<close>, then, when the name
  changed, the empty-name \<^verbatim>\<open>BadDataError\<close> or \<open>NameExistsError\<close>; an update that passes
  every check, the project check included, succeeds.
\<close>

theorem update_project_scope:
  "(fst (update cfg segmentSchema i raw actor w)
       = Inl (BadDataError (invalidProject_message (projectsUsed i w)))
    \<longleftrightarrow> (\<exists>input pre p. segmentSchema raw = Some input
          \<and> valuesCount input \<le> segmentValuesLimit cfg
          \<and> find (\<lambda>s. seg_id s = i) (segments w) = Some pre
          \<and> (name pre = name input
               \<or> (name input \<noteq> [] \<and> name input \<notin> name ` set (segments w)))
          \<and> project input = Some p \<and> p \<noteq> []
          \<and> (1 < card (projectId ` set (fst (getStrategiesBySegment i w)))
               \<or> (card (projectId ` set (fst (getStrategiesBySegment i w))) = 1
                    \<and> p \<notin> projectId ` set (fst (getStrategiesBySegment i w))))))
   \<and> set (projectsUsed i w) = projectId ` set (fst (getStrategiesBySegment i w))
   \<and> (\<forall>candidate :: upsert_segment.
         fst (getStrategiesBySegment i w) = [] \<or> project candidate = None \<longrightarrow>
         fst (validateSegmentProject i candidate w) = Inr ())
   \<and> (\<forall>candidate :: upsert_segment.
         invalidProject i candidate w \<longleftrightarrow>
           (\<exists>p. project candidate = Some p \<and> p \<noteq> []
              \<and> (1 < card (projectId ` set (fst (getStrategiesBySegment i w)))
                   \<or> (card (projectId ` set (fst (getStrategiesBySegment i w))) = 1
                        \<and> p \<notin> projectId ` set (fst (getStrategiesBySegment i w))))))
   \<and> (segmentSchema raw = None \<longrightarrow>
      fst (update cfg segmentSchema i raw actor w) = Inl ValidationError)
   \<and> (\<forall>input. segmentSchema raw = Some input \<longrightarrow>
        (segmentValuesLimit cfg < valuesCount input \<longrightarrow>
           fst (update cfg segmentSchema i raw actor w)
             = Inl (BadDataError (segmentValuesLimit_message (segmentValuesLimit cfg))))
        \<and> (valuesCount input \<le> segmentValuesLimit cfg
             \<and> find (\<lambda>s. seg_id s = i) (segments w) = None \<longrightarrow>
           fst (update cfg segmentSchema i raw actor w) = Inl NotFoundError)
        \<and> (\<forall>pre. valuesCount input \<le> segmentValuesLimit cfg
               \<and> find (\<lambda>s. seg_id s = i) (segments w) = Some pre \<longrightarrow>
             (name pre \<noteq> name input \<and> name input = [] \<longrightarrow>
                fst (update cfg segmentSchema i raw actor w)
                  = Inl (BadDataError ''Segment name cannot be empty''))
             \<and> (name pre \<noteq> name input \<and> name input \<noteq> []
                  \<and> name input \<in> name ` set (segments w) \<longrightarrow>
                fst (update cfg segmentSchema i raw actor w)
                  = Inl (NameExistsError ''Segment name already exists''))
             \<and> ((name pre = name input
                   \<or> (name input \<noteq> [] \<and> name input \<notin> name ` set (segments w)))
                  \<and> \<not> invalidProject i input w \<longrightarrow>
                fst (update cfg segmentSchema i raw actor w) = Inr ())))"
proof -
  have a: "(fst (update cfg segmentSchema i raw actor w)
       = Inl (BadDataError (invalidProject_message (projectsUsed i w)))
    \<longleftrightarrow> (\<exists>input pre p. segmentSchema raw = Some input
          \<and> valuesCount input \<le> segmentValuesLimit cfg
          \<and> find (\<lambda>s. seg_id s = i) (segments w) = Some pre
          \<and> (name pre = name input
               \<or> (name input \<noteq> [] \<and> name input \<notin> name ` set (segments w)))
          \<and> project input = Some p \<and> p \<noteq> []
          \<and> (1 < card (projectId ` set (fst (getStrategiesBySegment i w)))
               \<or> (card (projectId ` set (fst (getStrategiesBySegment i w))) = 1
                    \<and> p \<notin> projectId ` set (fst (getStrategiesBySegment i w))))))"
    unfolding update_invalidProject_iff invalidProject_iff by blast
  have b: "set (projectsUsed i w) = projectId ` set (fst (getStrategiesBySegment i w))"
    by (rule set_projectsUsed)
  have c: "(\<forall>candidate :: upsert_segment.
         fst (getStrategiesBySegment i w) = [] \<or> project candidate = None \<longrightarrow>
         fst (validateSegmentProject i candidate w) = Inr ())"
  proof (intro allI impI)
    fix candidate :: upsert_segment
    assume "fst (getStrategiesBySegment i w) = [] \<or> project candidate = None"
    then have "\<not> invalidProject i candidate w"
      by (auto simp add: invalidProject_iff)
    then show "fst (validateSegmentProject i candidate w) = Inr ()"
      by (simp add: validateSegmentProject_eq)
  qed
  have d: "(\<forall>candidate :: upsert_segment.
         invalidProject i candidate w \<longleftrightarrow>
           (\<exists>p. project candidate = Some p \<and> p \<noteq> []
              \<and> (1 < card (projectId ` set (fst (getStrategiesBySegment i w)))
                   \<or> (card (projectId ` set (fst (getStrategiesBySegment i w))) = 1
                        \<and> p \<notin> projectId ` set (fst (getStrategiesBySegment i w))))))"
    by (intro allI) (rule invalidProject_iff)
  note e = update_outcome [where segmentSchema = segmentSchema and raw = raw and cfg = cfg
      and i = i and actor = actor and w = w]
  show ?thesis
    by (rule conjI [OF a conjI [OF b conjI [OF c conjI [OF d e]]]])
qed

theorem update_project_scope_witness:
  "fst (update (ex_config 2) ex_schema 1 (Some (ex_input ''eu-users'' (Some ''P'') [''de'']))
          (ex_actor None None) ex_world)
     = Inl (BadDataError
         ''Invalid project. Segment is being used by strategies in other projects: P, Q'')
   \<and> fst (update (ex_config 2) ex_schema 2 (Some (ex_input ''beta'' (Some ''Q'') [''de'']))
          (ex_actor None None) ex_world)
     = Inl (BadDataError
         ''Invalid project. Segment is being used by strategies in other projects: P'')
   \<and> fst (validateSegmentProject 3 (ex_input ''staff'' (Some ''Q'') [''de'']) ex_world) = Inr ()
   \<and> fst (validateSegmentProject 1 (ex_input ''eu-users'' None [''de'']) ex_world) = Inr ()
   \<and> fst (update (ex_config 2) ex_schema 1 None (ex_actor None None) ex_world) = Inl ValidationError
   \<and> fst (update (ex_config 2) ex_schema 1
            (Some (ex_input ''eu-users'' (Some ''P'') [''de'', ''fr'', ''it'', ''es'']))
            (ex_actor None None) ex_world)
       = Inl (BadDataError ''Segments may not have more than 3 values'')
   \<and> fst (update (ex_config 2) ex_schema 7 (Some (ex_input ''eu-users'' (Some ''P'') [''de'']))
            (ex_actor None None) ex_world) = Inl NotFoundError
   \<and> fst (update (ex_config 2) ex_schema 1 (Some (ex_input [] (Some ''P'') [''de'']))
            (ex_actor None None) ex_world)
       = Inl (BadDataError ''Segment name cannot be empty'')
   \<and> fst (update (ex_config 2) ex_schema 1 (Some (ex_input ''beta'' (Some ''P'') [''de'']))
            (ex_actor None None) ex_world)
       = Inl (NameExistsError ''Segment name already exists'')
   \<and> fst (update (ex_config 2) ex_schema 2 (Some (ex_input ''beta'' (Some ''P'') [''de'']))
            (ex_actor None None) ex_world) = Inr ()"
proof -
  let ?n = "ex_actor None None"
  have two: "\<exists>input pre p. ex_schema (Some (ex_input ''eu-users'' (Some ''P'') [''de''])) = Some input
          \<and> valuesCount input \<le> segmentValuesLimit (ex_config 2)
          \<and> find (\<lambda>s. seg_id s = 1) (segments ex_world) = Some pre
          \<and> (name pre = name input
               \<or> (name input \<noteq> [] \<and> name input \<notin> name ` set (segments ex_world)))
          \<and> project input = Some p \<and> p \<noteq> []
          \<and> (1 < card (projectId ` set (fst (getStrategiesBySegment 1 ex_world)))
               \<or> (card (projectId ` set (fst (getStrategiesBySegment 1 ex_world))) = 1
                    \<and> p \<notin> projectId ` set (fst (getStrategiesBySegment 1 ex_world))))"
    using ex_world_find(1) ex_world_strategies(1) by simp
  have one: "\<exists>input pre p. ex_schema (Some (ex_input ''beta'' (Some ''Q'') [''de''])) = Some input
          \<and> valuesCount input \<le> segmentValuesLimit (ex_config 2)
          \<and> find (\<lambda>s. seg_id s = 2) (segments ex_world) = Some pre
          \<and> (name pre = name input
               \<or> (name input \<noteq> [] \<and> name input \<notin> name ` set (segments ex_world)))
          \<and> project input = Some p \<and> p \<noteq> []
          \<and> (1 < card (projectId ` set (fst (getStrategiesBySegment 2 ex_world)))
               \<or> (card (projectId ` set (fst (getStrategiesBySegment 2 ex_world))) = 1
                    \<and> p \<notin> projectId ` set (fst (getStrategiesBySegment 2 ex_world))))"
    by (simp add: ex_world_find ex_world_strategies)
  from update_project_scope [where cfg = "ex_config 2" and segmentSchema = ex_schema and i = 1
         and raw = "Some (ex_input ''eu-users'' (Some ''P'') [''de''])" and actor = ?n
         and w = ex_world] two
  have a: "fst (update (ex_config 2) ex_schema 1 (Some (ex_input ''eu-users'' (Some ''P'') [''de'']))
          ?n ex_world)
     = Inl (BadDataError (invalidProject_message (projectsUsed 1 ex_world)))"
    by blast
  from update_project_scope [where cfg = "ex_config 2" and segmentSchema = ex_schema and i = 2
         and raw = "Some (ex_input ''beta'' (Some ''Q'') [''de''])" and actor = ?n
         and w = ex_world] one
  have b: "fst (update (ex_config 2) ex_schema 2 (Some (ex_input ''beta'' (Some ''Q'') [''de'']))
          ?n ex_world)
     = Inl (BadDataError (invalidProject_message (projectsUsed 2 ex_world)))"
    by blast
  from update_project_scope [where cfg = "ex_config 2" and segmentSchema = ex_schema and i = 3
         and raw = "Some (ex_input ''beta'' (Some ''Q'') [''de''])" and actor = ?n
         and w = ex_world]
  have c: "fst (validateSegmentProject 3 (ex_input ''staff'' (Some ''Q'') [''de'']) ex_world) = Inr ()"
    by (simp add: ex_world_strategies)
  from update_project_scope [where cfg = "ex_config 2" and segmentSchema = ex_schema and i = 1
         and raw = "Some (ex_input ''beta'' (Some ''Q'') [''de''])" and actor = ?n
         and w = ex_world]
  have d: "fst (validateSegmentProject 1 (ex_input ''eu-users'' None [''de'']) ex_world) = Inr ()"
    by simp
  have nf: "find (\<lambda>s. seg_id s = 7) (segments ex_world) = None"
    by (simp add: ex_world_fields)
  have ok: "\<not> invalidProject 2 (ex_input ''beta'' (Some ''P'') [''de'']) ex_world"
    by (simp add: invalidProject_def ex_world_projectsUsed)
  from update_project_scope [where cfg = "ex_config 2" and segmentSchema = ex_schema and i = 1
         and raw = None and actor = ?n and w = ex_world]
  have e: "fst (update (ex_config 2) ex_schema 1 None ?n ex_world) = Inl ValidationError"
    by simp
  from update_project_scope [where cfg = "ex_config 2" and segmentSchema = ex_schema and i = 1
         and raw = "Some (ex_input ''eu-users'' (Some ''P'') [''de'', ''fr'', ''it'', ''es''])"
         and actor = ?n and w = ex_world]
  have f: "fst (update (ex_config 2) ex_schema 1
            (Some (ex_input ''eu-users'' (Some ''P'') [''de'', ''fr'', ''it'', ''es''])) ?n ex_world)
       = Inl (BadDataError (segmentValuesLimit_message 3))"
    by simp
  from update_project_scope [where cfg = "ex_config 2" and segmentSchema = ex_schema and i = 7
         and raw = "Some (ex_input ''eu-users'' (Some ''P'') [''de''])"
         and actor = ?n and w = ex_world] nf
  have g: "fst (update (ex_config 2) ex_schema 7 (Some (ex_input ''eu-users'' (Some ''P'') [''de'']))
            ?n ex_world) = Inl NotFoundError"
    by simp
  from update_project_scope [where cfg = "ex_config 2" and segmentSchema = ex_schema and i = 1
         and raw = "Some (ex_input [] (Some ''P'') [''de''])"
         and actor = ?n and w = ex_world] ex_world_find(1)
  have h: "fst (update (ex_config 2) ex_schema 1 (Some (ex_input [] (Some ''P'') [''de'']))
            ?n ex_world) = Inl (BadDataError ''Segment name cannot be empty'')"
    by simp
  from update_project_scope [where cfg = "ex_config 2" and segmentSchema = ex_schema and i = 1
         and raw = "Some (ex_input ''beta'' (Some ''P'') [''de''])"
         and actor = ?n and w = ex_world] ex_world_find(1) ex_world_names
  have k: "fst (update (ex_config 2) ex_schema 1 (Some (ex_input ''beta'' (Some ''P'') [''de'']))
            ?n ex_world) = Inl (NameExistsError ''Segment name already exists'')"
    by simp
  from update_project_scope [where cfg = "ex_config 2" and segmentSchema = ex_schema and i = 2
         and raw = "Some (ex_input ''beta'' (Some ''P'') [''de''])"
         and actor = ?n and w = ex_world] ex_world_find(2) ok
  have l: "fst (update (ex_config 2) ex_schema 2 (Some (ex_input ''beta'' (Some ''P'') [''de'']))
            ?n ex_world) = Inr ()"
    by simp
  have m: "segmentValuesLimit_message 3 = ''Segments may not have more than 3 values''"
    by (simp add: segmentValuesLimit_message_def)
  from a b have a': "fst (update (ex_config 2) ex_schema 1
          (Some (ex_input ''eu-users'' (Some ''P'') [''de''])) ?n ex_world)
     = Inl (BadDataError
         ''Invalid project. Segment is being used by strategies in other projects: P, Q'')"
    and b': "fst (update (ex_config 2) ex_schema 2
          (Some (ex_input ''beta'' (Some ''Q'') [''de''])) ?n ex_world)
     = Inl (BadDataError
         ''Invalid project. Segment is being used by strategies in other projects: P'')"
    unfolding ex_world_projectsUsed by (simp_all add: invalidProject_message_def)
  from a' b' c d e f [unfolded m] g h k l show ?thesis
    by (intro conjI)
qed

text \<open>
  The claim as stated fails where an earlier check rejects first: segment 1 exists and
  is linked to strategies of two projects, the candidate's project is set, and the
  update is rejected with \<open>NameExistsError\<close>, since the candidate's new name is held
  by segment 2.
\<close>

theorem update_project_scope_counterexample:
  "find (\<lambda>s. seg_id s = 1) (segments ex_world) = Some (ex_segment 1 ''eu-users'' None)
   \<and> project (ex_input ''beta'' (Some ''P'') [''de'']) = Some ''P''
   \<and> card (projectId ` set (fst (getStrategiesBySegment 1 ex_world))) = 2
   \<and> fst (update (ex_config 2) ex_schema 1 (Some (ex_input ''beta'' (Some ''P'') [''de'']))
          (ex_actor None None) ex_world)
       = Inl (NameExistsError ''Segment name already exists'')
   \<and> \<not> (fst (update (ex_config 2) ex_schema 1 (Some (ex_input ''beta'' (Some ''P'') [''de'']))
               (ex_actor None None) ex_world)
            = Inl (BadDataError (invalidProject_message (projectsUsed 1 ex_world)))
          \<longleftrightarrow> truthy (project (ex_input ''beta'' (Some ''P'') [''de'']))
              \<and> (1 < card (projectId ` set (fst (getStrategiesBySegment 1 ex_world)))
                   \<or> (card (projectId ` set (fst (getStrategiesBySegment 1 ex_world))) = 1
                        \<and> the (project (ex_input ''beta'' (Some ''P'') [''de'']))
                              \<notin> projectId ` set (fst (getStrategiesBySegment 1 ex_world)))))"
  using ex_world_find(1) ex_world_strategies(1)
  by (simp add: update_eq ex_world_names)

text \<open>
  C5. \<^verbatim>\<open>create(rawInput, actor)\<close> runs its checks in order and stops at the first that
  fails: the schema (\<open>ValidationError\<close>), the values limit on the total count of
  constraint values (the \<^verbatim>\<open>BadDataError\<close> "Segments may not have more than N values"),
  the empty name (the \<^verbatim>\<open>BadDataError\<close> "Segment name cannot be empty") and the duplicate
  name (\<open>NameExistsError\<close>). A failed create has made no mutating call and leaves the
  tables of the stores as they were. A create that passes every check returns the
  segment the store persisted.
\<close>

theorem create_checks_before_store:
  "(segmentSchema raw = None \<longrightarrow>
      create cfg segmentSchema raw actor w = (Inl ValidationError, w))
   \<and> (\<forall>input. segmentSchema raw = Some input \<longrightarrow>
        valuesCount input
          = (\<Sum>c\<leftarrow>constraints input. case constraint_values c of None \<Rightarrow> 0 | Some vs \<Rightarrow> length vs)
        \<and> (segmentValuesLimit cfg < valuesCount input \<longrightarrow>
             create cfg segmentSchema raw actor w
               = (Inl (BadDataError (segmentValuesLimit_message (segmentValuesLimit cfg))), w))
        \<and> (valuesCount input \<le> segmentValuesLimit cfg \<and> name input = [] \<longrightarrow>
             create cfg segmentSchema raw actor w
               = (Inl (BadDataError ''Segment name cannot be empty''), w))
        \<and> (valuesCount input \<le> segmentValuesLimit cfg \<and> name input \<noteq> []
              \<and> name input \<in> name ` set (segments w) \<longrightarrow>
             fst (create cfg segmentSchema raw actor w)
               = Inl (NameExistsError ''Segment name already exists''))
        \<and> (valuesCount input \<le> segmentValuesLimit cfg \<and> name input \<noteq> []
              \<and> name input \<notin> name ` set (segments w) \<longrightarrow>
             fst (create cfg segmentSchema raw actor w) = Inr (stored (nextId w) input)
             \<and> segments (snd (create cfg segmentSchema raw actor w))
                 = segments w @ [stored (nextId w) input]))
   \<and> (\<forall>e. fst (create cfg segmentSchema raw actor w) = Inl e \<longrightarrow>
        tables (snd (create cfg segmentSchema raw actor w)) = tables w
        \<and> filter mutating (new_calls w (snd (create cfg segmentSchema raw actor w))) = []
        \<and> calls (snd (create cfg segmentSchema raw actor w))
            = calls w @ new_calls w (snd (create cfg segmentSchema raw actor w)))"
proof (intro conjI allI impI)
  fix e assume "fst (create cfg segmentSchema raw actor w) = Inl e"
  then show "tables (snd (create cfg segmentSchema raw actor w)) = tables w"
    and "filter mutating (new_calls w (snd (create cfg segmentSchema raw actor w))) = []"
    and "calls (snd (create cfg segmentSchema raw actor w))
            = calls w @ new_calls w (snd (create cfg segmentSchema raw actor w))"
    by (auto simp add: create_eq new_calls_def log_call_def split: option.splits if_splits)
qed (simp_all add: create_eq valuesCount_sum)

theorem create_checks_before_store_witness:
  "create (ex_config 2) ex_schema None (ex_actor None None) ex_world
     = (Inl ValidationError, ex_world)
   \<and> create (ex_config 2) ex_schema (Some (ex_input ''fresh'' None [''a'', ''b'', ''c'', ''d'']))
         (ex_actor None None) ex_world
     = (Inl (BadDataError ''Segments may not have more than 3 values''), ex_world)
   \<and> create (ex_config 2) ex_schema (Some (ex_input [] None [''de''])) (ex_actor None None) ex_world
     = (Inl (BadDataError ''Segment name cannot be empty''), ex_world)
   \<and> fst (create (ex_config 2) ex_schema (Some (ex_input ''beta'' None [''de''])) (ex_actor None None)
            ex_world)
     = Inl (NameExistsError ''Segment name already exists'')
   \<and> tables (snd (create (ex_config 2) ex_schema (Some (ex_input ''beta'' None [''de'']))
                     (ex_actor None None) ex_world))
     = tables ex_world
   \<and> fst (create (ex_config 2) ex_schema (Some (ex_input ''fresh'' None [''de'', ''fr'']))
            (ex_actor None None) ex_world)
     = Inr (stored 4 (ex_input ''fresh'' None [''de'', ''fr'']))
   \<and> segments (snd (create (ex_config 2) ex_schema (Some (ex_input ''fresh'' None [''de'', ''fr'']))
                       (ex_actor None None) ex_world))
     = segments ex_world @ [stored 4 (ex_input ''fresh'' None [''de'', ''fr''])]"
  using
    create_checks_before_store [of ex_schema None "ex_config 2" "ex_actor None None" ex_world]
    create_checks_before_store [of ex_schema "Some (ex_input ''fresh'' None [''a'', ''b'', ''c'', ''d''])"
      "ex_config 2" "ex_actor None None" ex_world]
    create_checks_before_store [of ex_schema "Some (ex_input [] None [''de''])"
      "ex_config 2" "ex_actor None None" ex_world]
    create_checks_before_store [of ex_schema "Some (ex_input ''beta'' None [''de''])"
      "ex_config 2" "ex_actor None None" ex_world]
    create_checks_before_store [of ex_schema "Some (ex_input ''fresh'' None [''de'', ''fr''])"
      "ex_config 2" "ex_actor None None" ex_world]
  by (simp add: ex_schema_def ex_world_names segmentValuesLimit_message_def ex_world_fields)

text \<open>
  C6. For an update of an existing segment whose candidate passes the schema and the
  values limit: when the candidate's name is the stored name, no \<^verbatim>\<open>existsByName\<close> call is
  made and the update succeeds unless the project check rejects it; when the name
  differs, an empty new name fails with the \<^verbatim>\<open>BadDataError\<close> "Segment name cannot be
  empty" and a non-empty new name that a stored segment holds fails with
  \<open>NameExistsError\<close>.
\<close>

theorem update_name_check:
  assumes "segmentSchema raw = Some input"
    and "valuesCount input \<le> segmentValuesLimit cfg"
    and "find (\<lambda>s. seg_id s = i) (segments w) = Some pre"
  shows "(name pre = name input \<longrightarrow>
            (\<forall>nm. Store_existsByName nm
                    \<notin> set (new_calls w (snd (update cfg segmentSchema i raw actor w))))
            \<and> calls (snd (update cfg segmentSchema i raw actor w))
                = calls w @ new_calls w (snd (update cfg segmentSchema i raw actor w))
            \<and> (\<not> invalidProject i input w \<longrightarrow>
                  fst (update cfg segmentSchema i raw actor w) = Inr ()))
       \<and> (name pre \<noteq> name input \<and> name input = [] \<longrightarrow>
            fst (update cfg segmentSchema i raw actor w)
              = Inl (BadDataError ''Segment name cannot be empty''))
       \<and> (name pre \<noteq> name input \<and> name input \<noteq> []
             \<and> (\<exists>other \<in> set (segments w). name other = name input) \<longrightarrow>
            fst (update cfg segmentSchema i raw actor w)
              = Inl (NameExistsError ''Segment name already exists''))"
proof -
  from assms(2) have vals: "\<not> segmentValuesLimit cfg < valuesCount input" by simp
  note same = update_name_unchanged [where segmentSchema = segmentSchema and raw = raw
      and actor = actor, OF assms(1) vals assms(3)]
  note diff = update_name_changed [where segmentSchema = segmentSchema and raw = raw
      and actor = actor, OF assms(1) vals assms(3)]
  show ?thesis
  proof (intro conjI impI allI)
    show "calls (snd (update cfg segmentSchema i raw actor w))
            = calls w @ new_calls w (snd (update cfg segmentSchema i raw actor w))"
      by (rule update_calls_extend)
  next
    fix nm assume eq: "name pre = name input"
    show "Store_existsByName nm
            \<notin> set (new_calls w (snd (update cfg segmentSchema i raw actor w)))"
      unfolding same [OF eq] by (simp add: new_calls_def)
  next
    assume "name pre = name input" "\<not> invalidProject i input w"
    then show "fst (update cfg segmentSchema i raw actor w) = Inr ()"
      by (simp add: same)
  next
    assume "name pre \<noteq> name input \<and> name input = []"
    then have ne: "name pre \<noteq> name input" and e: "name input = []" by blast+
    from diff [OF ne] e show "fst (update cfg segmentSchema i raw actor w)
              = Inl (BadDataError ''Segment name cannot be empty'')"
      by simp
  next
    assume a: "name pre \<noteq> name input \<and> name input \<noteq> []
             \<and> (\<exists>other \<in> set (segments w). name other = name input)"
    then have ne: "name pre \<noteq> name input" and e: "name input \<noteq> []"
      and h: "name input \<in> name ` set (segments w)" by force+
    from diff [OF ne] e h show "fst (update cfg segmentSchema i raw actor w)
              = Inl (NameExistsError ''Segment name already exists'')"
      by simp
  qed
qed

theorem update_name_check_witness:
  "fst (update (ex_config 2) ex_schema 2 (Some (ex_input ''beta'' (Some ''P'') [''de'']))
          (ex_actor None None) ex_world) = Inr ()
   \<and> new_calls ex_world
        (snd (update (ex_config 2) ex_schema 2 (Some (ex_input ''beta'' (Some ''P'') [''de'']))
               (ex_actor None None) ex_world))
      = [Store_get 2, Strategies_getStrategiesBySegment 2,
         Store_update 2 (ex_input ''beta'' (Some ''P'') [''de'']),
         EventStore_store (updated_event (ex_actor None None) 2
            (ex_input ''beta'' (Some ''P'') [''de'']) (ex_segment 2 ''beta'' None))]
   \<and> fst (update (ex_config 2) ex_schema 2 (Some (ex_input [] None [''de'']))
          (ex_actor None None) ex_world)
      = Inl (BadDataError ''Segment name cannot be empty'')
   \<and> fst (update (ex_config 2) ex_schema 2 (Some (ex_input ''staff'' None [''de'']))
          (ex_actor None None) ex_world)
      = Inl (NameExistsError ''Segment name already exists'')"
proof -
  let ?n = "ex_actor None None"
  have v: "valuesCount (ex_input nm p [''de'']) \<le> segmentValuesLimit (ex_config 2)" for nm p
    by simp
  have np: "\<not> invalidProject 2 (ex_input ''beta'' (Some ''P'') [''de'']) ex_world"
    by (simp add: invalidProject_def ex_world_projectsUsed)
  have held: "\<exists>other \<in> set (segments ex_world). name other = name (ex_input ''staff'' None [''de''])"
    by (simp add: ex_world_fields)
  have calls: "new_calls ex_world
        (snd (update (ex_config 2) ex_schema 2 (Some (ex_input ''beta'' (Some ''P'') [''de'']))
               ?n ex_world))
      = [Store_get 2, Strategies_getStrategiesBySegment 2,
         Store_update 2 (ex_input ''beta'' (Some ''P'') [''de'']),
         EventStore_store (updated_event ?n 2
            (ex_input ''beta'' (Some ''P'') [''de'']) (ex_segment 2 ''beta'' None))]"
    using np
    by (simp add: update_eq ex_world_find new_calls_def updated_event_def ex_world_fields)
  from update_name_check [where segmentSchema = ex_schema and cfg = "ex_config 2"
         and actor = ?n and input = "ex_input ''beta'' (Some ''P'') [''de'']",
         OF ex_schema_Some(1) v ex_world_find(2)] np
  have a: "fst (update (ex_config 2) ex_schema 2 (Some (ex_input ''beta'' (Some ''P'') [''de'']))
          ?n ex_world) = Inr ()"
    by simp
  from update_name_check [where segmentSchema = ex_schema and cfg = "ex_config 2"
         and actor = ?n and input = "ex_input [] None [''de'']",
         OF ex_schema_Some(1) v ex_world_find(2)]
  have b: "fst (update (ex_config 2) ex_schema 2 (Some (ex_input [] None [''de'']))
          ?n ex_world) = Inl (BadDataError ''Segment name cannot be empty'')"
    by simp
  from update_name_check [where segmentSchema = ex_schema and cfg = "ex_config 2"
         and actor = ?n and input = "ex_input ''staff'' None [''de'']",
         OF ex_schema_Some(1) v ex_world_find(2)] held
  have c: "fst (update (ex_config 2) ex_schema 2 (Some (ex_input ''staff'' None [''de'']))
          ?n ex_world) = Inl (NameExistsError ''Segment name already exists'')"
    by simp
  from a b c calls show ?thesis by simp
qed

text \<open>
  C7. A successful create, update or delete appends exactly one event to the audit
  trail, and the call that stores it is the last call made, right after the one
  mutating call on the segment store; no other mutating call is made. The event is
  \<open>SEGMENT_CREATED\<close> with the created segment as data, \<open>SEGMENT_UPDATED\<close> with the
  updated segment as data and the segment read before the update as preData, or
  \<open>SEGMENT_DELETED\<close> with the segment read before the deletion as data. Its createdBy
  is the actor's email when that is a non-empty string and the actor's username
  otherwise.
\<close>

theorem mutation_emits_one_event:
  "(\<forall>s. fst (create cfg segmentSchema raw actor w) = Inr s \<longrightarrow>
      (\<exists>input ev.
         segmentSchema raw = Some input
         \<and> ev = \<lparr>ev_type = SEGMENT_CREATED,
                  createdBy = (case email actor of None \<Rightarrow> username actor
                               | Some e \<Rightarrow> if e = [] then username actor else Some e),
                  data = s, preData = None\<rparr>
         \<and> s \<in> set (segments (snd (create cfg segmentSchema raw actor w)))
         \<and> events (snd (create cfg segmentSchema raw actor w)) = events w @ [ev]
         \<and> filter mutating (new_calls w (snd (create cfg segmentSchema raw actor w)))
             = [Store_create input, EventStore_store ev]))
   \<and> (fst (update cfg segmentSchema i raw actor w) = Inr () \<longrightarrow>
      (\<exists>input pre ev.
         segmentSchema raw = Some input
         \<and> find (\<lambda>s. seg_id s = i) (segments w) = Some pre
         \<and> ev = \<lparr>ev_type = SEGMENT_UPDATED,
                  createdBy = (case email actor of None \<Rightarrow> username actor
                               | Some e \<Rightarrow> if e = [] then username actor else Some e),
                  data = stored i input, preData = Some pre\<rparr>
         \<and> stored i input \<in> set (segments (snd (update cfg segmentSchema i raw actor w)))
         \<and> events (snd (update cfg segmentSchema i raw actor w)) = events w @ [ev]
         \<and> filter mutating (new_calls w (snd (update cfg segmentSchema i raw actor w)))
             = [Store_update i input, EventStore_store ev]))
   \<and> (fst (delete i actor w) = Inr () \<longrightarrow>
      (\<exists>pre ev.
         find (\<lambda>s. seg_id s = i) (segments w) = Some pre
         \<and> ev = \<lparr>ev_type = SEGMENT_DELETED,
                  createdBy = (case email actor of None \<Rightarrow> username actor
                               | Some e \<Rightarrow> if e = [] then username actor else Some e),
                  data = pre, preData = None\<rparr>
         \<and> i \<notin> seg_id ` set (segments (snd (delete i actor w)))
         \<and> events (snd (delete i actor w)) = events w @ [ev]
         \<and> new_calls w (snd (delete i actor w))
             = [Store_get i, Store_delete i, EventStore_store ev]))
   \<and> calls (snd (create cfg segmentSchema raw actor w))
       = calls w @ new_calls w (snd (create cfg segmentSchema raw actor w))
   \<and> calls (snd (update cfg segmentSchema i raw actor w))
       = calls w @ new_calls w (snd (update cfg segmentSchema i raw actor w))
   \<and> calls (snd (delete i actor w)) = calls w @ new_calls w (snd (delete i actor w))"
proof (intro conjI allI impI)
  show "calls (snd (create cfg segmentSchema raw actor w))
       = calls w @ new_calls w (snd (create cfg segmentSchema raw actor w))"
    by (rule create_calls_extend)
next
  show "calls (snd (update cfg segmentSchema i raw actor w))
       = calls w @ new_calls w (snd (update cfg segmentSchema i raw actor w))"
    by (rule update_calls_extend)
next
  show "calls (snd (delete i actor w)) = calls w @ new_calls w (snd (delete i actor w))"
    by (rule delete_calls_extend)
next
  fix s assume "fst (create cfg segmentSchema raw actor w) = Inr s"
  then show "\<exists>input ev.
         segmentSchema raw = Some input
         \<and> ev = \<lparr>ev_type = SEGMENT_CREATED,
                  createdBy = (case email actor of None \<Rightarrow> username actor
                               | Some e \<Rightarrow> if e = [] then username actor else Some e),
                  data = s, preData = None\<rparr>
         \<and> s \<in> set (segments (snd (create cfg segmentSchema raw actor w)))
         \<and> events (snd (create cfg segmentSchema raw actor w)) = events w @ [ev]
         \<and> filter mutating (new_calls w (snd (create cfg segmentSchema raw actor w)))
             = [Store_create input, EventStore_store ev]"
    by (auto simp add: create_eq new_calls_def js_or_cases split: option.splits if_splits)
next
  assume ok: "fst (update cfg segmentSchema i raw actor w) = Inr ()"
  then obtain input pre where input: "segmentSchema raw = Some input"
    and vals: "\<not> segmentValuesLimit cfg < valuesCount input"
    and pre: "find (\<lambda>s. seg_id s = i) (segments w) = Some pre"
    and nm: "name pre = name input \<or> (name input \<noteq> [] \<and> name input \<notin> name ` set (segments w))"
    and pr: "\<not> invalidProject i input w"
    by (rule update_Inr_D)
  note run = update_success [where segmentSchema = segmentSchema and raw = raw and actor = actor,
      OF input vals pre nm pr]
  from pre have mem: "pre \<in> set (segments w)" and pid: "seg_id pre = i"
    by (auto simp add: find_Some_iff)
  then have here: "stored i input
      \<in> (\<lambda>t. if seg_id t = i then stored i input else t) ` set (segments w)"
    by force
  have mut: "filter mutating (new_calls w (snd (update cfg segmentSchema i raw actor w)))
             = [Store_update i input, EventStore_store (updated_event actor i input pre)]"
    unfolding run by (simp add: new_calls_def)
  from input pre here mut
  show "\<exists>input pre ev.
         segmentSchema raw = Some input
         \<and> find (\<lambda>s. seg_id s = i) (segments w) = Some pre
         \<and> ev = \<lparr>ev_type = SEGMENT_UPDATED,
                  createdBy = (case email actor of None \<Rightarrow> username actor
                               | Some e \<Rightarrow> if e = [] then username actor else Some e),
                  data = stored i input, preData = Some pre\<rparr>
         \<and> stored i input \<in> set (segments (snd (update cfg segmentSchema i raw actor w)))
         \<and> events (snd (update cfg segmentSchema i raw actor w)) = events w @ [ev]
         \<and> filter mutating (new_calls w (snd (update cfg segmentSchema i raw actor w)))
             = [Store_update i input, EventStore_store ev]"
    by (simp add: run updated_event_def js_or_cases)
next
  assume ok: "fst (delete i actor w) = Inr ()"
  then obtain pre where pre: "find (\<lambda>s. seg_id s = i) (segments w) = Some pre"
    by (cases "find (\<lambda>s. seg_id s = i) (segments w)") (simp_all add: delete_eq)
  then show "\<exists>pre ev.
         find (\<lambda>s. seg_id s = i) (segments w) = Some pre
         \<and> ev = \<lparr>ev_type = SEGMENT_DELETED,
                  createdBy = (case email actor of None \<Rightarrow> username actor
                               | Some e \<Rightarrow> if e = [] then username actor else Some e),
                  data = pre, preData = None\<rparr>
         \<and> i \<notin> seg_id ` set (segments (snd (delete i actor w)))
         \<and> events (snd (delete i actor w)) = events w @ [ev]
         \<and> new_calls w (snd (delete i actor w))
             = [Store_get i, Store_delete i, EventStore_store ev]"
    by (auto simp add: delete_eq new_calls_def js_or_cases)
qed

theorem mutation_emits_one_event_witness:
  "events (snd (create (ex_config 2) ex_schema (Some (ex_input ''fresh'' None [''de'', ''fr'']))
                  (ex_actor (Some ''admin'') (Some ''admin@example.com'')) ex_world))
     = [\<lparr>ev_type = SEGMENT_CREATED, createdBy = Some ''admin@example.com'',
         data = stored 4 (ex_input ''fresh'' None [''de'', ''fr'']), preData = None\<rparr>]
   \<and> events (snd (update (ex_config 2) ex_schema 2 (Some (ex_input ''beta'' (Some ''P'') [''de'']))
                  (ex_actor (Some ''admin'') None) ex_world))
     = [\<lparr>ev_type = SEGMENT_UPDATED, createdBy = Some ''admin'',
         data = stored 2 (ex_input ''beta'' (Some ''P'') [''de'']),
         preData = Some (ex_segment 2 ''beta'' None)\<rparr>]
   \<and> events (snd (delete 3 (ex_actor (Some ''admin'') (Some ''admin@example.com'')) ex_world))
     = [\<lparr>ev_type = SEGMENT_DELETED, createdBy = Some ''admin@example.com'',
         data = ex_segment 3 ''staff'' None, preData = None\<rparr>]
   \<and> new_calls ex_world
        (snd (delete 3 (ex_actor (Some ''admin'') (Some ''admin@example.com'')) ex_world))
     = [Store_get 3, Store_delete 3,
        EventStore_store \<lparr>ev_type = SEGMENT_DELETED, createdBy = Some ''admin@example.com'',
         data = ex_segment 3 ''staff'' None, preData = None\<rparr>]"
proof -
  let ?a = "ex_actor (Some ''admin'') (Some ''admin@example.com'')"
  let ?b = "ex_actor (Some ''admin'') None"
  let ?c = "create (ex_config 2) ex_schema (Some (ex_input ''fresh'' None [''de'', ''fr''])) ?a ex_world"
  let ?u = "update (ex_config 2) ex_schema 2 (Some (ex_input ''beta'' (Some ''P'') [''de''])) ?b ex_world"
  let ?d = "delete 3 ?a ex_world"
  have c: "fst ?c = Inr (stored 4 (ex_input ''fresh'' None [''de'', ''fr'']))"
    by (simp add: create_eq ex_world_names ex_world_fields)
  have u: "fst ?u = Inr ()"
    by (simp add: update_eq ex_world_find invalidProject_def ex_world_projectsUsed)
  have d: "fst ?d = Inr ()"
    by (simp add: delete_eq ex_world_find)
  from mutation_emits_one_event [where cfg = "ex_config 2" and segmentSchema = ex_schema
         and raw = "Some (ex_input ''fresh'' None [''de'', ''fr''])" and actor = ?a
         and w = ex_world and i = 2]
  have "events (snd ?c)
     = [\<lparr>ev_type = SEGMENT_CREATED, createdBy = Some ''admin@example.com'',
         data = stored 4 (ex_input ''fresh'' None [''de'', ''fr'']), preData = None\<rparr>]"
    using c by (simp add: ex_world_fields)
  moreover
  from mutation_emits_one_event [where cfg = "ex_config 2" and segmentSchema = ex_schema
         and raw = "Some (ex_input ''beta'' (Some ''P'') [''de''])" and actor = ?b
         and w = ex_world and i = 2]
  have "events (snd ?u)
     = [\<lparr>ev_type = SEGMENT_UPDATED, createdBy = Some ''admin'',
         data = stored 2 (ex_input ''beta'' (Some ''P'') [''de'']),
         preData = Some (ex_segment 2 ''beta'' None)\<rparr>]"
    using u by (simp add: ex_world_fields ex_world_find)
  moreover
  from mutation_emits_one_event [where cfg = "ex_config 2" and segmentSchema = ex_schema
         and raw = "Some (ex_input ''beta'' (Some ''P'') [''de''])" and actor = ?a
         and w = ex_world and i = 3]
  have "events (snd ?d)
     = [\<lparr>ev_type = SEGMENT_DELETED, createdBy = Some ''admin@example.com'',
         data = ex_segment 3 ''staff'' None, preData = None\<rparr>]
    \<and> new_calls ex_world (snd ?d)
     = [Store_get 3, Store_delete 3,
        EventStore_store \<lparr>ev_type = SEGMENT_DELETED, createdBy = Some ''admin@example.com'',
         data = ex_segment 3 ''staff'' None, preData = None\<rparr>]"
    using d by (simp add: ex_world_fields ex_world_find)
  ultimately show ?thesis by simp
qed

text \<open>
  C8. For a pair that is already linked, a second \<^verbatim>\<open>addToStrategy\<close> never creates a
  duplicate link: the link table, and with it the number of segments linked to the
  strategy, is the one before, whether the call succeeds or fails. Its limit check
  compares the number of segments currently linked (the existing pair included) with
  \<^verbatim>\<open>strategySegmentsLimit\<close>, whichever segment is added: below the limit the repeated
  call succeeds, at the limit it fails with the limit error.
\<close>

theorem addToStrategy_again:
  assumes "(i, strategyId) \<in> set (links w)"
  shows "links (snd (addToStrategy cfg i strategyId w)) = links w
       \<and> tables (snd (addToStrategy cfg i strategyId w)) = tables w
       \<and> length (fst (getByStrategy strategyId (snd (addToStrategy cfg i strategyId w))))
           = length (fst (getByStrategy strategyId w))
       \<and> fst (addToStrategy cfg i strategyId w)
           = (if strategySegmentsLimit cfg \<le> length (fst (getByStrategy strategyId w))
              then Inl (BadDataError (strategySegmentsLimit_message (strategySegmentsLimit cfg)))
              else Inr ())"
  using assms
  by (simp add: addToStrategy_def validateStrategySegmentLimit_eq getByStrategy_eq
        linked_eq tables_def store_addToStrategy_def)

theorem addToStrategy_again_witness:
  "links (snd (addToStrategy (ex_config 3) 1 ''strat-1'' ex_world)) = links ex_world
   \<and> fst (addToStrategy (ex_config 3) 1 ''strat-1'' ex_world) = Inr ()
   \<and> links (snd (addToStrategy (ex_config 2) 1 ''strat-1'' ex_world)) = links ex_world
   \<and> fst (addToStrategy (ex_config 2) 1 ''strat-1'' ex_world)
       = Inl (BadDataError ''Strategies may not have more than 2 segments'')"
proof -
  have l: "(1, ''strat-1'') \<in> set (links ex_world)"
    by (simp add: ex_world_fields)
  have n: "length (fst (getByStrategy ''strat-1'' ex_world)) = 2"
    using ex_world_linked by (simp add: linked_def)
  from addToStrategy_again [OF l, of "ex_config 3"] addToStrategy_again [OF l, of "ex_config 2"]
  show ?thesis
    unfolding n by (simp add: ex_config_def strategySegmentsLimit_message_def)
qed

text \<open>
  The claim as stated fails: with a limit of three segments and two linked, adding a
  third succeeds and fills the strategy; adding the same segment a second time would
  leave the strategy with its three segments, within the limit, yet the call is
  rejected by the limit check, which counts the repeated pair as one more segment.
\<close>

theorem addToStrategy_again_counterexample:
  "fst (addToStrategy (ex_config 3) 3 ''strat-1'' ex_world) = Inr ()
   \<and> (3, ''strat-1'') \<in> set (links (snd (addToStrategy (ex_config 3) 3 ''strat-1'' ex_world)))
   \<and> length (fst (getByStrategy ''strat-1''
                (snd (addToStrategy (ex_config 3) 3 ''strat-1'' ex_world)))) = 3
   \<and> strategySegmentsLimit (ex_config 3) = 3
   \<and> fst (addToStrategy (ex_config 3) 3 ''strat-1''
            (snd (addToStrategy (ex_config 3) 3 ''strat-1'' ex_world)))
       = Inl (BadDataError ''Strategies may not have more than 3 segments'')"
proof -
  define w1 where "w1 = snd (addToStrategy (ex_config 3) 3 ''strat-1'' ex_world)"
  have first: "addToStrategy (ex_config 3) 3 ''strat-1'' ex_world
      = (Inr (), store_addToStrategy 3 ''strat-1'' (log_call (Store_getByStrategy ''strat-1'') ex_world))"
    by (simp add: addToStrategy_def validateStrategySegmentLimit_eq ex_world_linked)
  have l1: "linked ''strat-1'' w1
      = [ex_segment 1 ''eu-users'' None, ex_segment 2 ''beta'' None, ex_segment 3 ''staff'' None]"
    unfolding w1_def first by (simp add: linked_eq ex_world_fields)
  have in1: "(3, ''strat-1'') \<in> set (links w1)"
    unfolding w1_def first by simp
  have second: "fst (addToStrategy (ex_config 3) 3 ''strat-1'' w1)
       = Inl (BadDataError ''Strategies may not have more than 3 segments'')"
    by (simp add: addToStrategy_def validateStrategySegmentLimit_eq l1
          strategySegmentsLimit_message_def)
  have "fst (addToStrategy (ex_config 3) 3 ''strat-1'' ex_world) = Inr ()
   \<and> (3, ''strat-1'') \<in> set (links w1)
   \<and> length (fst (getByStrategy ''strat-1'' w1)) = 3
   \<and> strategySegmentsLimit (ex_config 3) = 3
   \<and> fst (addToStrategy (ex_config 3) 3 ''strat-1'' w1)
       = Inl (BadDataError ''Strategies may not have more than 3 segments'')"
    using first l1 in1 second by (simp add: linked_def)
  then show ?thesis unfolding w1_def .
qed

text \<open>
  C9. When the ids handed to \<^verbatim>\<open>updateStrategySegments\<close> are, as a set, the ids of the
  segments currently linked to the strategy, both differences are empty: the call makes
  no removal and no addition, whatever the schedules, and the tables of the stores
  (the links of every strategy among them) are the ones before. The call is fulfilled
  after its one read, or rejected before it when the list is longer than the limit.
\<close>

theorem updateStrategySegments_same_set:
  assumes "set ids = seg_id ` set (fst (getByStrategy strategyId w))"
  shows "segmentIdsToRemove strategyId ids w = []
       \<and> segmentIdsToAdd strategyId ids w = []
       \<and> updateStrategySegments cfg strategyId ids removals additions w =
           (if strategySegmentsLimit cfg < length ids
            then (Rejected (BadDataError
                    (strategySegmentsLimit_message (strategySegmentsLimit cfg))), w)
            else (Fulfilled, log_call (Store_getByStrategy strategyId) w))
       \<and> tables (snd (updateStrategySegments cfg strategyId ids removals additions w)) = tables w
       \<and> filter mutating (calls (snd (updateStrategySegments cfg strategyId ids removals additions w)))
           = filter mutating (calls w)"
proof -
  from assms have rm: "segmentIdsToRemove strategyId ids w = []"
    by (auto simp add: segmentIdsToRemove_def linked_def filter_empty_conv)
  from assms have ad: "segmentIdsToAdd strategyId ids w = []"
    by (auto simp add: segmentIdsToAdd_def linked_def filter_empty_conv)
  have run: "updateStrategySegments cfg strategyId ids removals additions w =
           (if strategySegmentsLimit cfg < length ids
            then (Rejected (BadDataError
                    (strategySegmentsLimit_message (strategySegmentsLimit cfg))), w)
            else (Fulfilled, log_call (Store_getByStrategy strategyId) w))"
  proof (cases "strategySegmentsLimit cfg < length ids")
    case True
    then show ?thesis by (simp add: updateStrategySegments_too_many)
  next
    case False
    then have "length ids \<le> strategySegmentsLimit cfg" by simp
    from updateStrategySegments_batches [OF this] False show ?thesis
      by (simp add: rm ad promise_all_no_tasks)
  qed
  from rm ad run show ?thesis by simp
qed

theorem updateStrategySegments_same_set_witness:
  "updateStrategySegments (ex_config 2) ''strat-1'' [2, 1, 2] [0] [1, 0] ex_world
     = (Rejected (BadDataError ''Strategies may not have more than 2 segments''), ex_world)
   \<and> updateStrategySegments (ex_config 2) ''strat-1'' [2, 1] [0] [1, 0] ex_world
     = (Fulfilled, log_call (Store_getByStrategy ''strat-1'') ex_world)
   \<and> links (snd (updateStrategySegments (ex_config 2) ''strat-1'' [2, 1] [0] [1, 0] ex_world))
     = [(1, ''strat-1''), (2, ''strat-1''), (1, ''strat-2'')]"
proof -
  have cur: "seg_id ` set (fst (getByStrategy ''strat-1'' ex_world)) = {1, 2}"
    using ex_world_linked by (simp add: linked_def)
  have s1: "set [2, 1, 2] = seg_id ` set (fst (getByStrategy ''strat-1'' ex_world))"
    unfolding cur by auto
  have s2: "set [2, 1] = seg_id ` set (fst (getByStrategy ''strat-1'' ex_world))"
    unfolding cur by auto
  from updateStrategySegments_same_set [OF s1, of "ex_config 2" "[0]" "[1, 0]"]
       updateStrategySegments_same_set [OF s2, of "ex_config 2" "[0]" "[1, 0]"]
  show ?thesis
    by (simp add: ex_config_def strategySegmentsLimit_message_def ex_world_fields)
qed

text \<open>
  C10. The event a successful create, update or delete stores has
  \<^verbatim>\<open>createdBy = user.email || user.username\<close>: the email when it is a non-empty string,
  the username otherwise. An actor whose email is the empty string is attributed by
  username; an actor with neither email nor username gives createdBy undefined
  (\<open>None\<close>), and no error: whether an operation succeeds, and with what, does not
  depend on the actor.
\<close>

theorem createdBy_email_or_username:
  "(\<forall>s. fst (create cfg segmentSchema raw actor w) = Inr s \<longrightarrow>
       createdBy (last (events (snd (create cfg segmentSchema raw actor w))))
         = js_or (email actor) (username actor))
   \<and> (fst (update cfg segmentSchema i raw actor w) = Inr () \<longrightarrow>
       createdBy (last (events (snd (update cfg segmentSchema i raw actor w))))
         = js_or (email actor) (username actor))
   \<and> (fst (delete i actor w) = Inr () \<longrightarrow>
       createdBy (last (events (snd (delete i actor w))))
         = js_or (email actor) (username actor))
   \<and> js_or (email actor) (username actor)
        = (case email actor of None \<Rightarrow> username actor
           | Some e \<Rightarrow> if e = [] then username actor else Some e)
   \<and> (email actor = Some [] \<longrightarrow> js_or (email actor) (username actor) = username actor)
   \<and> (email actor = None \<and> username actor = None \<longrightarrow>
         js_or (email actor) (username actor) = None)
   \<and> fst (create cfg segmentSchema raw actor w) = fst (create cfg segmentSchema raw anyone w)
   \<and> fst (update cfg segmentSchema i raw actor w) = fst (update cfg segmentSchema i raw anyone w)
   \<and> fst (delete i actor w) = fst (delete i anyone w)"
proof (intro conjI allI impI)
  show "js_or (email actor) (username actor)
        = (case email actor of None \<Rightarrow> username actor
           | Some e \<Rightarrow> if e = [] then username actor else Some e)"
    by (rule js_or_cases)
qed (simp_all add: create_createdBy update_createdBy delete_createdBy js_or_def
       create_actor_irrelevant [of _ _ _ actor _ anyone]
       update_actor_irrelevant [of _ _ _ _ actor _ anyone]
       delete_actor_irrelevant [of _ actor _ anyone])

theorem createdBy_email_or_username_witness:
  "createdBy (last (events (snd (create (ex_config 2) ex_schema
       (Some (ex_input ''fresh'' None [''de'', ''fr''])) (ex_actor (Some ''admin'') (Some [])) ex_world))))
     = Some ''admin''
   \<and> fst (delete 3 (ex_actor None None) ex_world) = Inr ()
   \<and> createdBy (last (events (snd (delete 3 (ex_actor None None) ex_world)))) = None
   \<and> fst (update (ex_config 2) ex_schema 2 (Some (ex_input ''beta'' (Some ''P'') [''de'']))
            (ex_actor None None) ex_world) = Inr ()
   \<and> createdBy (last (events (snd (update (ex_config 2) ex_schema 2
        (Some (ex_input ''beta'' (Some ''P'') [''de''])) (ex_actor None None) ex_world)))) = None"
proof -
  let ?e = "ex_actor (Some ''admin'') (Some [])"
  let ?n = "ex_actor None None"
  have c: "fst (create (ex_config 2) ex_schema (Some (ex_input ''fresh'' None [''de'', ''fr''])) ?e
             ex_world) = Inr (stored 4 (ex_input ''fresh'' None [''de'', ''fr'']))"
    by (simp add: create_eq ex_world_names ex_world_fields)
  have u: "fst (update (ex_config 2) ex_schema 2 (Some (ex_input ''beta'' (Some ''P'') [''de'']))
             ?n ex_world) = Inr ()"
    by (simp add: update_eq ex_world_find invalidProject_def ex_world_projectsUsed)
  have d: "fst (delete 3 ?n ex_world) = Inr ()"
    by (simp add: delete_eq ex_world_find)
  from createdBy_email_or_username [where cfg = "ex_config 2" and segmentSchema = ex_schema
         and raw = "Some (ex_input ''fresh'' None [''de'', ''fr''])" and actor = ?e
         and w = ex_world and i = 2] c
  have "createdBy (last (events (snd (create (ex_config 2) ex_schema
       (Some (ex_input ''fresh'' None [''de'', ''fr''])) ?e ex_world)))) = Some ''admin''"
    by simp
  moreover
  from createdBy_email_or_username [where cfg = "ex_config 2" and segmentSchema = ex_schema
         and raw = "Some (ex_input ''beta'' (Some ''P'') [''de''])" and actor = ?n
         and w = ex_world and i = 2] u
  have "createdBy (last (events (snd (update (ex_config 2) ex_schema 2
        (Some (ex_input ''beta'' (Some ''P'') [''de''])) ?n ex_world)))) = None"
    by simp
  moreover
  from createdBy_email_or_username [where cfg = "ex_config 2" and segmentSchema = ex_schema
         and raw = "Some (ex_input ''beta'' (Some ''P'') [''de''])" and actor = ?n
         and w = ex_world and i = 3] d
  have "createdBy (last (events (snd (delete 3 ?n ex_world)))) = None"
    by simp
  ultimately show ?thesis using u d by simp
qed

end
